theory Spec2Isabelle
  imports Complex_Main "HOL-Library.Product_Lexorder" "HOL-Library.List_Lexorder"
    "HOL-Library.Multiset"
begin

section \<open>Python values and errors\<close>

text \<open>
  Floats of the program are modelled as exact reals: rounding, infinities and NaN are
  outside this development. Every exception the modelled code can raise is a value of
  \<open>py_error\<close>, and a function that can raise returns \<open>py_error + 'a\<close>.
\<close>

datatype py_error =
  IndexError | ValueError | ZeroDivisionError | TypeError | AttributeError | LinAlgError

text \<open>Python indexing \<open>xs[i]\<close> of a tuple or list: a negative index counts from the end.\<close>

definition py_get :: "'a list \<Rightarrow> int \<Rightarrow> py_error + 'a" where
  "py_get xs i =
     (let j = (if i < 0 then i + int (length xs) else i)
      in if j < 0 \<or> int (length xs) \<le> j then Inl IndexError else Inr (xs ! nat j))"

text \<open>Python float division \<open>a / b\<close>.\<close>

definition py_truediv :: "real \<Rightarrow> real \<Rightarrow> py_error + real" where
  "py_truediv a b = (if b = 0 then Inl ZeroDivisionError else Inr (a / b))"

section \<open>bisect.bisect\_left\<close>

text \<open>
  The standard library's loop
  \<^verbatim>\<open>while lo < hi: mid = (lo + hi) // 2; if a[mid] < x: lo = mid + 1 else: hi = mid\<close>
  started at \<open>lo = 0\<close>, \<open>hi = len(a)\<close>.
\<close>

function bisect_left_loop :: "real list \<Rightarrow> real \<Rightarrow> nat \<Rightarrow> nat \<Rightarrow> nat" where
  "bisect_left_loop a x lo hi =
     (if lo < hi then
        (let mid = (lo + hi) div 2
         in if a ! mid < x then bisect_left_loop a x (mid + 1) hi
            else bisect_left_loop a x lo mid)
      else lo)"
  by pat_completeness auto
termination
  by (relation "measure (\<lambda>(a, x, lo, hi). hi - lo)") auto

definition bisect_left :: "real list \<Rightarrow> real \<Rightarrow> nat" where
  "bisect_left a x = bisect_left_loop a x 0 (length a)"

section \<open>KeyFrames\<close>

text \<open>
  \<open>times\<close> and \<open>values\<close> of the class are the fields \<open>times_kf\<close> and \<open>values_kf\<close>.
  \<open>'v\<close> is the value type of the track; the interpolation function is stored in the
  object, as in the source.
\<close>

record 'v KeyFrames =
  times_kf :: "real list"
  values_kf :: "'v list"
  interpolate :: "'v \<Rightarrow> 'v \<Rightarrow> real \<Rightarrow> 'v"

text \<open>
  How Python compares two values of a track. \<open>sorted\<close> orders the (time, value) pairs
  as tuples, so it compares two values exactly when it compares two pairs of equal time.
  Floats and tuples are ordered (\<open>Ordered\<close>: the order of the value type here). Two
  numpy arrays of more than one element compare to an array, whose truth value raises
  ValueError (\<open>Ambiguous\<close>); vectors and quaternions are such arrays.
\<close>

datatype value_comparison = Ordered | Ambiguous

text \<open>
  \<open>KeyFrames.__init__\<close>. The argument is the list of (time, value) pairs (the items of
  the dict when a dict is passed). \<open>sorted\<close> orders the pairs lexicographically, which is
  the order of \<open>sort\<close> on pairs here. A sort cannot order pairs of equal time without
  comparing two of them, so when a time is repeated and the values are arrays it raises
  ValueError; when the times are distinct no two values are compared.
  \<open>zip(*keyframes)\<close> of an empty list yields nothing, and unpacking it into two names
  raises ValueError.
\<close>

definition KeyFrames_init ::
  "value_comparison \<Rightarrow> (real \<times> 'v::linorder) list \<Rightarrow> ('v \<Rightarrow> 'v \<Rightarrow> real \<Rightarrow> 'v) \<Rightarrow>
   py_error + 'v KeyFrames" where
  "KeyFrames_init cmp time_value_pairs interpolation_function =
     (if cmp = Ambiguous \<and> \<not> distinct (map fst time_value_pairs) then Inl ValueError
      else
        (let keyframes = sort (map (\<lambda>key. (fst key, snd key)) time_value_pairs)
         in if keyframes = [] then Inl ValueError
            else Inr \<lparr>times_kf = map fst keyframes, values_kf = map snd keyframes,
                      interpolate = interpolation_function\<rparr>))"

text \<open>\<open>KeyFrames.value\<close>, with every index read and the division as the source orders them.\<close>

definition interpolated ::
  "'v KeyFrames \<Rightarrow> real \<Rightarrow> int \<Rightarrow> py_error + 'v" where
  "interpolated kf time index_closest =
     (case py_get (times_kf kf) (index_closest - 1) of Inl e \<Rightarrow> Inl e | Inr a \<Rightarrow>
     (case py_get (times_kf kf) index_closest of Inl e \<Rightarrow> Inl e | Inr b \<Rightarrow>
     (case py_get (times_kf kf) (index_closest - 1) of Inl e \<Rightarrow> Inl e | Inr a' \<Rightarrow>
     (case py_truediv (time - a) (b - a') of Inl e \<Rightarrow> Inl e | Inr f \<Rightarrow>
     (case py_get (values_kf kf) index_closest of Inl e \<Rightarrow> Inl e | Inr v1 \<Rightarrow>
     (case py_get (values_kf kf) (index_closest - 1) of Inl e \<Rightarrow> Inl e | Inr v0 \<Rightarrow>
        Inr (interpolate kf v1 v0 f)))))))"

definition value_kf :: "'v KeyFrames \<Rightarrow> real \<Rightarrow> py_error + 'v" where
  "value_kf kf time =
     (case py_get (times_kf kf) 0 of Inl e \<Rightarrow> Inl e | Inr t0 \<Rightarrow>
      if time \<le> t0 then py_get (values_kf kf) 0
      else
       (case py_get (times_kf kf) (int (length (times_kf kf)) - 1) of Inl e \<Rightarrow> Inl e | Inr tn \<Rightarrow>
        if time \<ge> tn then py_get (values_kf kf) (int (length (times_kf kf)) - 1)
        else interpolated kf time (int (bisect_left (times_kf kf) time))))"

text \<open>
  The data-model invariant of a keyframe set: at least one keyframe, as many values as
  times, times strictly increasing.
\<close>

definition keyframe_set :: "'v KeyFrames \<Rightarrow> bool" where
  "keyframe_set kf \<longleftrightarrow>
     times_kf kf \<noteq> [] \<and> length (values_kf kf) = length (times_kf kf) \<and>
     sorted_wrt (<) (times_kf kf)"

text \<open>
  The index the specification describes, written from its words for comparison with
  \<open>bisect_left\<close>: the index of the first keyframe time strictly greater than \<open>time\<close>.
\<close>

definition spec_first_greater :: "real list \<Rightarrow> real \<Rightarrow> nat" where
  "spec_first_greater ts time = length (takeWhile (\<lambda>u. u \<le> time) ts)"

text \<open>
  The value the specification describes for a time between the first and the last
  keyframe time, written from its words around \<open>spec_first_greater\<close>.
\<close>

definition spec_value :: "'v KeyFrames \<Rightarrow> real \<Rightarrow> 'v" where
  "spec_value kf time =
     (let i = spec_first_greater (times_kf kf) time
      in interpolate kf (values_kf kf ! i) (values_kf kf ! (i - 1))
           ((time - times_kf kf ! (i - 1)) / (times_kf kf ! i - times_kf kf ! (i - 1))))"

text \<open>
  Two interpolation functions a caller may pass to \<open>KeyFrames\<close>: one holds the later
  keyframe's value (its first argument) over the whole segment, the other blends linearly
  from its first argument, at fraction 0, to its second, at fraction 1.
\<close>

definition hold_later :: "real \<Rightarrow> real \<Rightarrow> real \<Rightarrow> real" where
  "hold_later later earlier f = later"

definition blend_from_first :: "real \<Rightarrow> real \<Rightarrow> real \<Rightarrow> real" where
  "blend_from_first a b f = a + f * (b - a)"

section \<open>Matrices and the transform module\<close>

text \<open>A 4x4 matrix, by rows; \<open>matmul\<close> is numpy's \<open>@\<close> on two such matrices.\<close>

datatype row4 = Row4 real real real real

datatype mat4 = Mat4 row4 row4 row4 row4

fun dot4 :: "row4 \<Rightarrow> row4 \<Rightarrow> real" where
  "dot4 (Row4 a b c d) (Row4 x y z w) = a * x + b * y + c * z + d * w"

fun transpose4 :: "mat4 \<Rightarrow> mat4" where
  "transpose4 (Mat4 (Row4 a0 a1 a2 a3) (Row4 b0 b1 b2 b3) (Row4 c0 c1 c2 c3) (Row4 d0 d1 d2 d3)) =
     Mat4 (Row4 a0 b0 c0 d0) (Row4 a1 b1 c1 d1) (Row4 a2 b2 c2 d2) (Row4 a3 b3 c3 d3)"

fun row_matmul :: "row4 \<Rightarrow> mat4 \<Rightarrow> row4" where
  "row_matmul r (Mat4 c0 c1 c2 c3) = Row4 (dot4 r c0) (dot4 r c1) (dot4 r c2) (dot4 r c3)"

fun matmul :: "mat4 \<Rightarrow> mat4 \<Rightarrow> mat4" where
  "matmul (Mat4 r0 r1 r2 r3) B =
     (let Bt = transpose4 B
      in Mat4 (row_matmul r0 Bt) (row_matmul r1 Bt) (row_matmul r2 Bt) (row_matmul r3 Bt))"

text \<open>
  Modelled from the spec: \<open>identity\<close> of the transform module, which is not among the
  sources. The spec calls it the identity; it is the 4x4 identity matrix.
\<close>

definition identity :: mat4 where
  "identity = Mat4 (Row4 1 0 0 0) (Row4 0 1 0 0) (Row4 0 0 1 0) (Row4 0 0 0 1)"

text \<open>
  \<open>np.linalg.inv\<close> raises LinAlgError on a singular matrix, that is when the
  determinant (here by cofactors along the first row) is zero.
\<close>

fun det3 :: "real \<Rightarrow> real \<Rightarrow> real \<Rightarrow> real \<Rightarrow> real \<Rightarrow> real \<Rightarrow> real \<Rightarrow> real \<Rightarrow> real \<Rightarrow> real" where
  "det3 a b c d e f g h i = a * (e * i - f * h) - b * (d * i - f * g) + c * (d * h - e * g)"

fun det4 :: "mat4 \<Rightarrow> real" where
  "det4 (Mat4 (Row4 a0 a1 a2 a3) (Row4 b0 b1 b2 b3) (Row4 c0 c1 c2 c3) (Row4 d0 d1 d2 d3)) =
     a0 * det3 b1 b2 b3 c1 c2 c3 d1 d2 d3 - a1 * det3 b0 b2 b3 c0 c2 c3 d0 d2 d3
     + a2 * det3 b0 b1 b3 c0 c1 c3 d0 d1 d3 - a3 * det3 b0 b1 b2 c0 c1 c2 d0 d1 d2"

text \<open>
  Vectors and quaternions of the animation tracks are numpy arrays of floats, modelled
  as the lists of their components. The other
  functions imported from the transform module are not among the sources; the model
  takes them as a parameter, a record of the five functions the modelled code calls.
\<close>

type_synonym vec = "real list"

record transform_module =
  translate :: "vec \<Rightarrow> mat4"
  quaternion_matrix :: "vec \<Rightarrow> mat4"
  scale :: "vec \<Rightarrow> mat4"
  lerp :: "vec \<Rightarrow> vec \<Rightarrow> real \<Rightarrow> vec"
  quaternion_slerp :: "vec \<Rightarrow> vec \<Rightarrow> real \<Rightarrow> vec"

text \<open>
  Modelled from the spec: the linear blend \<open>lerp\<close> of the transform module, which is
  not among the sources. The spec gives it as \<open>earlier + f*(later-earlier)\<close> for the
  call \<open>(later, earlier, f)\<close>; on vectors the arithmetic is componentwise.
\<close>

definition spec_lerp :: "vec \<Rightarrow> vec \<Rightarrow> real \<Rightarrow> vec" where
  "spec_lerp later earlier f = map2 (\<lambda>l e. e + f * (l - e)) later earlier"

text \<open>
  An instance of the transform module for the examples of this development: the usual
  translation and scaling matrices of a 3-vector, the usual rotation matrix of a unit
  quaternion (w, x, y, z), and the blend above for both interpolations.
\<close>

definition example_translate :: "vec \<Rightarrow> mat4" where
  "example_translate v =
     (case v of [x, y, z] \<Rightarrow> Mat4 (Row4 1 0 0 x) (Row4 0 1 0 y) (Row4 0 0 1 z) (Row4 0 0 0 1)
      | _ \<Rightarrow> identity)"

definition example_scale :: "vec \<Rightarrow> mat4" where
  "example_scale v =
     (case v of [x, y, z] \<Rightarrow> Mat4 (Row4 x 0 0 0) (Row4 0 y 0 0) (Row4 0 0 z 0) (Row4 0 0 0 1)
      | _ \<Rightarrow> identity)"

definition example_quaternion_matrix :: "vec \<Rightarrow> mat4" where
  "example_quaternion_matrix q =
     (case q of [w, x, y, z] \<Rightarrow>
        Mat4 (Row4 (1 - 2 * (y * y + z * z)) (2 * (x * y - z * w)) (2 * (x * z + y * w)) 0)
             (Row4 (2 * (x * y + z * w)) (1 - 2 * (x * x + z * z)) (2 * (y * z - x * w)) 0)
             (Row4 (2 * (x * z - y * w)) (2 * (y * z + x * w)) (1 - 2 * (x * x + y * y)) 0)
             (Row4 0 0 0 1)
      | _ \<Rightarrow> identity)"

definition example_module :: transform_module where
  "example_module =
     \<lparr>translate = example_translate, quaternion_matrix = example_quaternion_matrix,
      scale = example_scale, lerp = spec_lerp, quaternion_slerp = spec_lerp\<rparr>"

section \<open>TransformKeyFrames\<close>

record TransformKeyFrames =
  translate_keys :: "vec KeyFrames"
  rotate_keys :: "vec KeyFrames"
  scale_keys :: "vec KeyFrames"

text \<open>
  A key-set argument is \<open>None\<close>, or the items of a dict, or a list of pairs.
  \<open>KeyFrames(None)\<close> raises TypeError when it iterates over its argument. The values
  of a transform track are arrays.
\<close>

type_synonym key_arg = "(real \<times> vec) list option"

definition KeyFrames_of_arg ::
  "key_arg \<Rightarrow> (vec \<Rightarrow> vec \<Rightarrow> real \<Rightarrow> vec) \<Rightarrow> py_error + vec KeyFrames" where
  "KeyFrames_of_arg arg interpolation_function =
     (case arg of None \<Rightarrow> Inl TypeError
      | Some time_value_pairs \<Rightarrow>
          KeyFrames_init Ambiguous time_value_pairs interpolation_function)"

definition TransformKeyFrames_init ::
  "transform_module \<Rightarrow> key_arg \<Rightarrow> key_arg \<Rightarrow> key_arg \<Rightarrow> py_error + TransformKeyFrames" where
  "TransformKeyFrames_init tm translate_keys' rotate_keys' scale_keys' =
     (case KeyFrames_of_arg translate_keys' (lerp tm) of Inl e \<Rightarrow> Inl e | Inr tk \<Rightarrow>
     (case KeyFrames_of_arg rotate_keys' (quaternion_slerp tm) of Inl e \<Rightarrow> Inl e | Inr rk \<Rightarrow>
     (case KeyFrames_of_arg scale_keys' (lerp tm) of Inl e \<Rightarrow> Inl e | Inr sk \<Rightarrow>
        Inr \<lparr>translate_keys = tk, rotate_keys = rk, scale_keys = sk\<rparr>)))"

definition TransformKeyFrames_value ::
  "transform_module \<Rightarrow> TransformKeyFrames \<Rightarrow> real \<Rightarrow> py_error + mat4" where
  "TransformKeyFrames_value tm tkf time =
     (case value_kf (translate_keys tkf) time of Inl e \<Rightarrow> Inl e | Inr tv \<Rightarrow>
     (case value_kf (rotate_keys tkf) time of Inl e \<Rightarrow> Inl e | Inr rv \<Rightarrow>
     (case value_kf (scale_keys tkf) time of Inl e \<Rightarrow> Inl e | Inr sv \<Rightarrow>
        (let T = translate tm tv; R = quaternion_matrix tm rv; S = scale tm sv
         in Inr (matmul (matmul T R) S)))))"

section \<open>Scene graph\<close>

text \<open>
  Objects are identified by a reference. The fields a traversal assigns
  (\<open>transform\<close> of a node, \<open>world_transform\<close> of a skinning node) live in a store
  indexed by reference, so that a skinned mesh reads the fields of the very nodes the
  traversal writes. Only a \<open>SkinningControlNode\<close> has a \<open>world_transform\<close>; reading
  it from another object raises AttributeError. \<open>glfw.get_time()\<close> is an external
  clock: its k-th reading is \<open>clk k\<close> for a function \<open>clk\<close> given to the traversal, and
  the store counts the readings made so far.
\<close>

type_synonym ref = nat

record store =
  transform :: "ref \<Rightarrow> mat4"
  world_transform :: "ref \<Rightarrow> mat4 option"
  time_reads :: nat

text \<open>
  The fields a traversal only reads (children, keyframes, bone bindings) are the
  arguments of the constructors. \<open>Mesh\<close> stands for every leaf drawable whose draw
  uploads the three matrices and executes its vertex array; its argument names the
  vertex array.
\<close>

datatype scene =
    Node ref "scene list"
  | KeyFrameControlNode ref TransformKeyFrames "scene list"
  | SkinningControlNode ref "TransformKeyFrames option" "scene list"
  | Mesh nat
  | SkinnedMesh nat "ref list" "mat4 list"
  | TexturedPhongMeshSkinned nat "ref list" "mat4 list"

text \<open>
  The calls to the rendering backend that carry matrices, in the order issued. Calls that
  select a program, bind a texture or upload colours are not recorded.
\<close>

datatype gl_call =
    UniformMatrix4fv string mat4
  | UniformBoneMatrix nat mat4
  | UniformBoneMatrices nat "mat4 list"
  | Execute nat

text \<open>\<open>Mesh.draw\<close>.\<close>

definition Mesh_draw :: "nat \<Rightarrow> mat4 \<Rightarrow> mat4 \<Rightarrow> mat4 \<Rightarrow> gl_call list" where
  "Mesh_draw g projection view model =
     [UniformMatrix4fv ''view'' view, UniformMatrix4fv ''projection'' projection,
      UniformMatrix4fv ''model'' model, Execute g]"

text \<open>
  The bone loop of \<open>TexturedPhongMeshSkinned.draw\<close>, over \<open>enumerate(self.bone_nodes)\<close>:
  the node's \<open>world_transform\<close> is read first, then \<open>self.bone_offsets[bone_id]\<close>.
\<close>

fun bone_matrix_loop :: "store \<Rightarrow> (nat \<times> ref) list \<Rightarrow> mat4 list \<Rightarrow> py_error + gl_call list" where
  "bone_matrix_loop s [] bone_offsets = Inr []"
| "bone_matrix_loop s ((bone_id, node) # rest) bone_offsets =
     (case world_transform s node of None \<Rightarrow> Inl AttributeError | Some W \<Rightarrow>
     (case py_get bone_offsets (int bone_id) of Inl e \<Rightarrow> Inl e | Inr offset \<Rightarrow>
     (case bone_matrix_loop s rest bone_offsets of Inl e \<Rightarrow> Inl e
      | Inr calls \<Rightarrow> Inr (UniformBoneMatrix bone_id (matmul W offset) # calls))))"

text \<open>
  \<open>TexturedPhongMeshSkinned.draw\<close>. \<open>FogColour.get_colour\<close> reads the clock once;
  the camera position needs the inverse of the view matrix.
\<close>

definition TexturedPhongMeshSkinned_draw ::
  "nat \<Rightarrow> ref list \<Rightarrow> mat4 list \<Rightarrow> mat4 \<Rightarrow> mat4 \<Rightarrow> mat4 \<Rightarrow> store \<Rightarrow>
   py_error + (store \<times> gl_call list)" where
  "TexturedPhongMeshSkinned_draw g bone_nodes bone_offsets projection view model s =
     (let s1 = s\<lparr>time_reads := Suc (time_reads s)\<rparr>
      in case bone_matrix_loop s1 (enumerate 0 bone_nodes) bone_offsets of Inl e \<Rightarrow> Inl e
         | Inr bone_calls \<Rightarrow>
             if det4 view = 0 then Inl LinAlgError
             else Inr (s1, [UniformMatrix4fv ''view'' view,
                            UniformMatrix4fv ''projection'' projection,
                            UniformMatrix4fv ''model'' model] @ bone_calls @ [Execute g]))"

text \<open>\<open>[node.world_transform for node in self.bone_nodes]\<close>.\<close>

fun world_transforms :: "store \<Rightarrow> ref list \<Rightarrow> py_error + mat4 list" where
  "world_transforms s [] = Inr []"
| "world_transforms s (node # rest) =
     (case world_transform s node of None \<Rightarrow> Inl AttributeError | Some W \<Rightarrow>
     (case world_transforms s rest of Inl e \<Rightarrow> Inl e | Inr Ws \<Rightarrow> Inr (W # Ws)))"

text \<open>
  numpy's \<open>@\<close> on a list of N and an array of M 4x4 matrices: the products in pairs
  when N = M, one matrix broadcast when N or M is 1, ValueError otherwise. With no
  matrix on either side the operands are empty vectors and nothing is uploaded.
\<close>

definition matmul_stacks :: "mat4 list \<Rightarrow> mat4 list \<Rightarrow> py_error + mat4 list" where
  "matmul_stacks Ws Os =
     (if Ws = [] \<and> Os = [] then Inr []
      else if Ws = [] \<or> Os = [] then Inl ValueError
      else if length Ws = length Os then Inr (map2 matmul Ws Os)
      else if length Ws = 1 then Inr (map (matmul (hd Ws)) Os)
      else if length Os = 1 then Inr (map (\<lambda>W. matmul W (hd Os)) Ws)
      else Inl ValueError)"

text \<open>\<open>SkinnedMesh.draw\<close>.\<close>

definition SkinnedMesh_draw ::
  "nat \<Rightarrow> ref list \<Rightarrow> mat4 list \<Rightarrow> mat4 \<Rightarrow> mat4 \<Rightarrow> mat4 \<Rightarrow> store \<Rightarrow>
   py_error + (store \<times> gl_call list)" where
  "SkinnedMesh_draw g bone_nodes bone_offsets projection view model s =
     (case world_transforms s bone_nodes of Inl e \<Rightarrow> Inl e | Inr Ws \<Rightarrow>
     (case matmul_stacks Ws bone_offsets of Inl e \<Rightarrow> Inl e | Inr bone_matrix \<Rightarrow>
        Inr (s, UniformBoneMatrices (length bone_nodes) bone_matrix
                # Mesh_draw g projection view model)))"

text \<open>
  \<open>draw\<close> of every class, and the loop of \<open>Node.draw\<close> over the children of the node at
  \<open>r\<close>, which reads \<open>self.transform\<close> anew for each child. An exception ends the
  traversal.
\<close>

fun draw ::
  "transform_module \<Rightarrow> (nat \<Rightarrow> real) \<Rightarrow> scene \<Rightarrow> mat4 \<Rightarrow> mat4 \<Rightarrow> mat4 \<Rightarrow> store \<Rightarrow>
   py_error + (store \<times> gl_call list)"
and draw_children ::
  "transform_module \<Rightarrow> (nat \<Rightarrow> real) \<Rightarrow> ref \<Rightarrow> scene list \<Rightarrow> mat4 \<Rightarrow> mat4 \<Rightarrow> mat4 \<Rightarrow> store \<Rightarrow>
   py_error + (store \<times> gl_call list)" where
  "draw tm clk (Node r children) projection view model s =
     draw_children tm clk r children projection view model s"
| "draw tm clk (KeyFrameControlNode r keyframes children) projection view model s =
     (case TransformKeyFrames_value tm keyframes (clk (time_reads s)) of Inl e \<Rightarrow> Inl e
      | Inr t \<Rightarrow>
          draw_children tm clk r children projection view model
            (s\<lparr>transform := (transform s)(r := t), time_reads := Suc (time_reads s)\<rparr>))"
| "draw tm clk (SkinningControlNode r keyframes children) projection view model s =
     (case (case keyframes of None \<Rightarrow> Inr s
            | Some k \<Rightarrow>
               (case TransformKeyFrames_value tm k (clk (time_reads s)) of Inl e \<Rightarrow> Inl e
                | Inr t \<Rightarrow> Inr (s\<lparr>transform := (transform s)(r := t),
                                   time_reads := Suc (time_reads s)\<rparr>)))
      of Inl e \<Rightarrow> Inl e
      | Inr s1 \<Rightarrow>
          draw_children tm clk r children projection view model
            (s1\<lparr>world_transform := (world_transform s1)(r \<mapsto> matmul model (transform s1 r))\<rparr>))"
| "draw tm clk (Mesh g) projection view model s = Inr (s, Mesh_draw g projection view model)"
| "draw tm clk (SkinnedMesh g bone_nodes bone_offsets) projection view model s =
     SkinnedMesh_draw g bone_nodes bone_offsets projection view model s"
| "draw tm clk (TexturedPhongMeshSkinned g bone_nodes bone_offsets) projection view model s =
     TexturedPhongMeshSkinned_draw g bone_nodes bone_offsets projection view model s"
| "draw_children tm clk r [] projection view model s = Inr (s, [])"
| "draw_children tm clk r (child # rest) projection view model s =
     (case draw tm clk child projection view (matmul model (transform s r)) s of Inl e \<Rightarrow> Inl e
      | Inr (s1, calls1) \<Rightarrow>
         (case draw_children tm clk r rest projection view model s1 of Inl e \<Rightarrow> Inl e
          | Inr (s2, calls2) \<Rightarrow> Inr (s2, calls1 @ calls2)))"

text \<open>
  The constructors. The new object is placed at the reference \<open>r\<close>: the constructor
  returns the object and the store with its assigned fields.
\<close>

definition Node_init :: "ref \<Rightarrow> scene list \<Rightarrow> mat4 \<Rightarrow> store \<Rightarrow> scene \<times> store" where
  "Node_init r children transform' s =
     (Node r children, s\<lparr>transform := (transform s)(r := transform')\<rparr>)"

text \<open>\<open>Node.add\<close> extends the list of children.\<close>

fun add :: "scene \<Rightarrow> scene list \<Rightarrow> scene" where
  "add (Node r children) drawables = Node r (children @ drawables)"
| "add (KeyFrameControlNode r k children) drawables = KeyFrameControlNode r k (children @ drawables)"
| "add (SkinningControlNode r k children) drawables = SkinningControlNode r k (children @ drawables)"
| "add leaf drawables = leaf"

text \<open>
  \<open>TransformKeyFrames(*keys)\<close>: the call needs exactly three positional arguments.
\<close>

fun TransformKeyFrames_star :: "transform_module \<Rightarrow> key_arg list \<Rightarrow> py_error + TransformKeyFrames" where
  "TransformKeyFrames_star tm [translate_keys', rotate_keys', scale_keys'] =
     TransformKeyFrames_init tm translate_keys' rotate_keys' scale_keys'"
| "TransformKeyFrames_star tm keys = Inl TypeError"

text \<open>Truth value of a key-set argument: \<open>None\<close> and the empty dict are false.\<close>

fun truthy :: "key_arg \<Rightarrow> bool" where
  "truthy None = False"
| "truthy (Some items) = (items \<noteq> [])"

text \<open>\<open>SkinningControlNode.__init__(*keys, transform)\<close>.\<close>

definition SkinningControlNode_init ::
  "transform_module \<Rightarrow> ref \<Rightarrow> key_arg list \<Rightarrow> mat4 \<Rightarrow> store \<Rightarrow> py_error + (scene \<times> store)" where
  "SkinningControlNode_init tm r keys transform' s =
     (let s1 = s\<lparr>transform := (transform s)(r := transform')\<rparr>
      in case py_get keys 0 of Inl e \<Rightarrow> Inl e
         | Inr k0 \<Rightarrow>
            (case (if truthy k0
                   then (case TransformKeyFrames_star tm keys of Inl e \<Rightarrow> Inl e
                         | Inr k \<Rightarrow> Inr (Some k))
                   else Inr None)
             of Inl e \<Rightarrow> Inl e
             | Inr keyframes \<Rightarrow>
                 Inr (SkinningControlNode r keyframes [],
                      s1\<lparr>world_transform := (world_transform s1)(r \<mapsto> identity)\<rparr>)))"

text \<open>\<open>KeyFrameControlNode.__init__\<close>; the node's transform is the default identity.\<close>

definition KeyFrameControlNode_init ::
  "transform_module \<Rightarrow> ref \<Rightarrow> key_arg \<Rightarrow> key_arg \<Rightarrow> key_arg \<Rightarrow> store \<Rightarrow>
   py_error + (scene \<times> store)" where
  "KeyFrameControlNode_init tm r translate_keys' rotate_keys' scale_keys' s =
     (case TransformKeyFrames_init tm translate_keys' rotate_keys' scale_keys' of Inl e \<Rightarrow> Inl e
      | Inr k \<Rightarrow> Inr (KeyFrameControlNode r k [],
                       s\<lparr>transform := (transform s)(r := identity)\<rparr>))"

text \<open>
  The references whose \<open>transform\<close> a traversal of the scene assigns: the nodes that
  hold keyframes.
\<close>

fun animated :: "scene \<Rightarrow> ref set"
and animated_list :: "scene list \<Rightarrow> ref set" where
  "animated (Node r children) = animated_list children"
| "animated (KeyFrameControlNode r k children) = insert r (animated_list children)"
| "animated (SkinningControlNode r None children) = animated_list children"
| "animated (SkinningControlNode r (Some k) children) = insert r (animated_list children)"
| "animated (Mesh g) = {}"
| "animated (SkinnedMesh g bone_nodes bone_offsets) = {}"
| "animated (TexturedPhongMeshSkinned g bone_nodes bone_offsets) = {}"
| "animated_list [] = {}"
| "animated_list (child # rest) = animated child \<union> animated_list rest"

text \<open>
  The calls of a loop over drawables written as one pass from left to right, each
  drawable given the same matrices: what \<open>Node.draw\<close> is compared with.
\<close>

fun each_in_order ::
  "(scene \<Rightarrow> store \<Rightarrow> py_error + (store \<times> gl_call list)) \<Rightarrow> scene list \<Rightarrow> store \<Rightarrow>
   py_error + (store \<times> gl_call list)" where
  "each_in_order f [] s = Inr (s, [])"
| "each_in_order f (child # rest) s =
     (case f child s of Inl e \<Rightarrow> Inl e
      | Inr (s1, calls1) \<Rightarrow>
         (case each_in_order f rest s1 of Inl e \<Rightarrow> Inl e
          | Inr (s2, calls2) \<Rightarrow> Inr (s2, calls1 @ calls2)))"

section \<open>Per-vertex skin weights\<close>

definition MAX_VERTEX_BONES :: nat where
  "MAX_VERTEX_BONES = 4"

definition MAX_BONES :: nat where
  "MAX_BONES = 128"

text \<open>An assimp bone carries its vertex weights; a weight entry names a vertex.\<close>

record aiVertexWeight =
  mVertexId :: nat
  mWeight :: real

record aiBone =
  mWeights :: "aiVertexWeight list"
  mOffsetMatrix :: mat4

text \<open>
  \<open>v_bone\<close> is an array with one row per vertex and one (weight, id) entry per bone
  column. The inner loop stores the entries of one bone; a vertex id beyond the rows
  raises IndexError.
\<close>

type_synonym v_bone = "(real \<times> nat) list list"

fun store_weights :: "nat \<Rightarrow> aiVertexWeight list \<Rightarrow> v_bone \<Rightarrow> py_error + v_bone" where
  "store_weights bone_id [] v_bone = Inr v_bone"
| "store_weights bone_id (entry # rest) v_bone =
     (if mVertexId entry < length v_bone
      then store_weights bone_id rest
             (v_bone[mVertexId entry :=
                (v_bone ! mVertexId entry)[bone_id := (mWeight entry, bone_id)]])
      else Inl IndexError)"

text \<open>The outer loop, over \<open>enumerate(mesh.mBones[:MAX_BONES])\<close>.\<close>

fun store_bones :: "(nat \<times> aiBone) list \<Rightarrow> v_bone \<Rightarrow> py_error + v_bone" where
  "store_bones [] v_bone = Inr v_bone"
| "store_bones ((bone_id, bone) # rest) v_bone =
     (case store_weights bone_id (mWeights bone) v_bone of Inl e \<Rightarrow> Inl e
      | Inr v_bone' \<Rightarrow> store_bones rest v_bone')"

text \<open>
  Lines 787 to 794 of the loader for one mesh with \<open>mNumVertices\<close> vertices: the array
  is filled, every row is sorted on the field \<open>weight\<close> (numpy breaks ties by the
  remaining field, so the order is the lexicographic one on (weight, id)), and the last
  \<open>MAX_VERTEX_BONES\<close> columns are kept. For a mesh without vertices the array has a
  single axis, and the slice over columns raises IndexError.
\<close>

definition per_vertex_weights :: "nat \<Rightarrow> aiBone list \<Rightarrow> py_error + v_bone" where
  "per_vertex_weights mNumVertices mBones =
     (case store_bones (enumerate 0 (take MAX_BONES mBones))
             (replicate mNumVertices (replicate MAX_BONES (0, 0)))
      of Inl e \<Rightarrow> Inl e
      | Inr v_bone \<Rightarrow>
          if mNumVertices = 0 then Inl IndexError
          else Inr (map (\<lambda>row. drop (length row - MAX_VERTEX_BONES) row) (map sort v_bone)))"

text \<open>
  The entry of the row of vertex \<open>v\<close> in column \<open>b\<close> once the array is filled: the
  last weight bone \<open>b\<close> lists for \<open>v\<close>, or the initial (0, 0) when it lists none or
  there is no such bone. The row has the \<open>MAX_BONES\<close> columns of the bones 0 to 127
  only: a bone of index 128 or more has no column, whatever it weighs.
\<close>

definition column_entry :: "aiBone list \<Rightarrow> nat \<Rightarrow> nat \<Rightarrow> real \<times> nat" where
  "column_entry mBones v b =
     (if b < length mBones
      then (case filter (\<lambda>entry. mVertexId entry = v) (mWeights (mBones ! b)) of
              [] \<Rightarrow> (0, 0)
            | e # es \<Rightarrow> (mWeight (last (e # es)), b))
      else (0, 0))"

definition filled_row :: "aiBone list \<Rightarrow> nat \<Rightarrow> (real \<times> nat) list" where
  "filled_row mBones v = map (column_entry mBones v) [0..<MAX_BONES]"

text \<open>
  The meshes of the examples: one bone per given weight, each weighing on vertex 0 alone.
\<close>

definition single_weight_bones :: "real list \<Rightarrow> aiBone list" where
  "single_weight_bones ws =
     map (\<lambda>w. \<lparr>mWeights = [\<lparr>mVertexId = 0, mWeight = w\<rparr>], mOffsetMatrix = identity\<rparr>) ws"

section \<open>Properties of bisect\_left and KeyFrames\<close>

lemma py_get_nat: "i < length xs \<Longrightarrow> py_get xs (int i) = Inr (xs ! i)"
  by (simp add: py_get_def)

lemma py_get_pred: "0 < i \<Longrightarrow> i < length xs \<Longrightarrow> py_get xs (int i - 1) = Inr (xs ! (i - 1))"
  using py_get_nat [of "i - 1" xs] by (simp add: of_nat_diff)

lemma py_get_last: "xs \<noteq> [] \<Longrightarrow> py_get xs (int (length xs) - 1) = Inr (last xs)"
  using py_get_pred [of "length xs - 1 + 1" xs] 
  by (cases xs rule: rev_cases) (simp_all add: py_get_def nth_append)

lemma bisect_left_loop_range:
  "lo \<le> hi \<Longrightarrow> lo \<le> bisect_left_loop a x lo hi \<and> bisect_left_loop a x lo hi \<le> hi"
proof (induction a x lo hi rule: bisect_left_loop.induct)
  case (1 a x lo hi)
  show ?case
  proof (cases "lo < hi")
    case False
    with "1.prems" show ?thesis by simp
  next
    case True
    let ?mid = "(lo + hi) div 2"
    from True have m: "lo \<le> ?mid" "?mid < hi" by linarith+
    show ?thesis
    proof (cases "a ! ?mid < x")
      case lt: True
      from "1.IH"(1) [OF True refl lt] m
      have "?mid + 1 \<le> bisect_left_loop a x (?mid + 1) hi \<and> bisect_left_loop a x (?mid + 1) hi \<le> hi"
        by simp
      moreover have "bisect_left_loop a x lo hi = bisect_left_loop a x (?mid + 1) hi"
        using True lt by (subst bisect_left_loop.simps) (simp add: Let_def)
      ultimately show ?thesis using m by simp
    next
      case ge: False
      from "1.IH"(2) [OF True refl ge] m
      have "lo \<le> bisect_left_loop a x lo ?mid \<and> bisect_left_loop a x lo ?mid \<le> ?mid"
        by simp
      moreover have "bisect_left_loop a x lo hi = bisect_left_loop a x lo ?mid"
        using True ge by (subst bisect_left_loop.simps) (simp add: Let_def)
      ultimately show ?thesis using m by simp
    qed
  qed
qed

lemma bisect_left_loop_sorted:
  "sorted a \<Longrightarrow> lo \<le> hi \<Longrightarrow> hi \<le> length a \<Longrightarrow>
   (\<forall>j<lo. a ! j < x) \<Longrightarrow> (\<forall>j. hi \<le> j \<and> j < length a \<longrightarrow> x \<le> a ! j) \<Longrightarrow>
   (\<forall>j<bisect_left_loop a x lo hi. a ! j < x) \<and>
   (\<forall>j. bisect_left_loop a x lo hi \<le> j \<and> j < length a \<longrightarrow> x \<le> a ! j)"
proof (induction a x lo hi rule: bisect_left_loop.induct)
  case (1 a x lo hi)
  show ?case
  proof (cases "lo < hi")
    case False
    with "1.prems" have "lo = hi" by simp
    with "1.prems" False show ?thesis by simp
  next
    case True
    let ?mid = "(lo + hi) div 2"
    from True have m: "lo \<le> ?mid" "?mid < hi" by linarith+
    with "1.prems" have ml: "?mid < length a" by simp
    show ?thesis
    proof (cases "a ! ?mid < x")
      case lt: True
      have below: "\<forall>j<?mid + 1. a ! j < x"
      proof (intro allI impI)
        fix j assume "j < ?mid + 1"
        then have "j \<le> ?mid" by simp
        with \<open>sorted a\<close> ml have "a ! j \<le> a ! ?mid" by (simp add: sorted_nth_mono)
        with lt show "a ! j < x" by simp
      qed
      have eq: "bisect_left_loop a x lo hi = bisect_left_loop a x (?mid + 1) hi"
        using True lt by (subst bisect_left_loop.simps) (simp add: Let_def)
      from "1.IH"(1) [OF True refl lt \<open>sorted a\<close> _ \<open>hi \<le> length a\<close> below "1.prems"(5)] m
      show ?thesis unfolding eq by simp
    next
      case ge: False
      have above: "\<forall>j. ?mid \<le> j \<and> j < length a \<longrightarrow> x \<le> a ! j"
      proof (intro allI impI)
        fix j assume "?mid \<le> j \<and> j < length a"
        with \<open>sorted a\<close> have "a ! ?mid \<le> a ! j" by (simp add: sorted_nth_mono)
        with ge show "x \<le> a ! j" by simp
      qed
      have eq: "bisect_left_loop a x lo hi = bisect_left_loop a x lo ?mid"
        using True ge by (subst bisect_left_loop.simps) (simp add: Let_def)
      from ml have "?mid \<le> length a" by simp
      from "1.IH"(2) [OF True refl ge \<open>sorted a\<close> m(1) this "1.prems"(4) above]
      show ?thesis unfolding eq by simp
    qed
  qed
qed

lemma bisect_left_sorted:
  assumes "sorted a"
  shows "bisect_left a x \<le> length a"
    and "\<forall>j<bisect_left a x. a ! j < x"
    and "\<forall>j. bisect_left a x \<le> j \<and> j < length a \<longrightarrow> x \<le> a ! j"
  using bisect_left_loop_range [of 0 "length a" a x]
    bisect_left_loop_sorted [OF assms, of 0 "length a" x]
  by (simp_all add: bisect_left_def)

lemma py_get_0: "xs \<noteq> [] \<Longrightarrow> py_get xs 0 = Inr (xs ! 0)"
  by (simp add: py_get_def)

lemma value_kf_low:
  assumes "times_kf kf \<noteq> []" "length (values_kf kf) = length (times_kf kf)"
    and "time \<le> times_kf kf ! 0"
  shows "value_kf kf time = Inr (values_kf kf ! 0)"
proof -
  from assms have "values_kf kf \<noteq> []" by auto
  with assms show ?thesis by (simp add: value_kf_def py_get_0)
qed

lemma value_kf_high_gen:
  assumes "times_kf kf \<noteq> []" "length (values_kf kf) = length (times_kf kf)"
    and "\<not> time \<le> times_kf kf ! 0" "time \<ge> last (times_kf kf)"
  shows "value_kf kf time = Inr (last (values_kf kf))"
proof -
  from assms have "values_kf kf \<noteq> []" by auto
  with assms py_get_last [of "values_kf kf"] show ?thesis
    by (simp add: value_kf_def py_get_0 py_get_last)
qed

lemma strict_first_last:
  assumes "sorted_wrt (<) (ts::real list)" "ts \<noteq> []" "last ts \<le> ts ! 0"
  shows "length ts = 1"
proof (rule ccontr)
  assume "length ts \<noteq> 1"
  with assms(2) have "0 < length ts - 1" "length ts - 1 < length ts"
    by (cases ts; simp)+
  with assms(1) have "ts ! 0 < ts ! (length ts - 1)"
    by (simp add: sorted_wrt_nth_less)
  with assms(2,3) show False by (simp add: last_conv_nth)
qed

lemma value_kf_high:
  assumes "keyframe_set kf" "time \<ge> last (times_kf kf)"
  shows "value_kf kf time = Inr (last (values_kf kf))"
proof (cases "time \<le> times_kf kf ! 0")
  case False
  with assms show ?thesis by (simp add: keyframe_set_def value_kf_high_gen)
next
  case True
  from assms have ne: "times_kf kf \<noteq> []" and len: "length (values_kf kf) = length (times_kf kf)"
    and st: "sorted_wrt (<) (times_kf kf)" by (simp_all add: keyframe_set_def)
  from True assms(2) have "last (times_kf kf) \<le> times_kf kf ! 0" by simp
  from strict_first_last [OF st ne this] len have "length (values_kf kf) = 1" by simp
  then have "last (values_kf kf) = values_kf kf ! 0"
    by (cases "values_kf kf") simp_all
  with value_kf_low [OF ne len True] show ?thesis by simp
qed

lemma bisect_left_interior:
  assumes "sorted ts" "ts \<noteq> []" "ts ! 0 < time" "time < last ts"
  shows "0 < bisect_left ts time" "bisect_left ts time < length ts"
    "ts ! (bisect_left ts time - 1) < time" "time \<le> ts ! bisect_left ts time"
proof -
  let ?i = "bisect_left ts time"
  note b = bisect_left_sorted [OF assms(1), of time]
  show pos: "0 < ?i"
  proof (rule ccontr)
    assume "\<not> 0 < ?i"
    with b(3) assms(2) have "time \<le> ts ! 0" by simp
    with assms(3) show False by simp
  qed
  show lt: "?i < length ts"
  proof (rule ccontr)
    assume "\<not> ?i < length ts"
    with assms(2) have "length ts - 1 < ?i" by (cases ts) simp_all
    with b(2) have "ts ! (length ts - 1) < time" by simp
    with assms(2,4) show False by (simp add: last_conv_nth)
  qed
  from pos b(2) show "ts ! (?i - 1) < time" by simp
  from lt b(3) show "time \<le> ts ! ?i" by simp
qed

lemma value_kf_interior:
  assumes "sorted (times_kf kf)" "times_kf kf \<noteq> []"
    and len: "length (values_kf kf) = length (times_kf kf)"
    and "times_kf kf ! 0 < time" "time < last (times_kf kf)"
  shows "value_kf kf time =
    Inr (interpolate kf (values_kf kf ! bisect_left (times_kf kf) time)
           (values_kf kf ! (bisect_left (times_kf kf) time - 1))
           ((time - times_kf kf ! (bisect_left (times_kf kf) time - 1)) /
            (times_kf kf ! bisect_left (times_kf kf) time -
             times_kf kf ! (bisect_left (times_kf kf) time - 1))))"
proof -
  let ?ts = "times_kf kf" and ?i = "bisect_left (times_kf kf) time"
  note i = bisect_left_interior [OF assms(1,2,4,5)]
  from i(3,4) have d: "?ts ! ?i - ?ts ! (?i - 1) \<noteq> 0" by simp
  from i(1,2) len have g:
    "py_get ?ts (int ?i) = Inr (?ts ! ?i)"
    "py_get ?ts (int ?i - 1) = Inr (?ts ! (?i - 1))"
    "py_get (values_kf kf) (int ?i) = Inr (values_kf kf ! ?i)"
    "py_get (values_kf kf) (int ?i - 1) = Inr (values_kf kf ! (?i - 1))"
    by (simp_all add: py_get_nat py_get_pred)
  have "interpolated kf time (int ?i) =
    Inr (interpolate kf (values_kf kf ! ?i) (values_kf kf ! (?i - 1))
           ((time - ?ts ! (?i - 1)) / (?ts ! ?i - ?ts ! (?i - 1))))"
    using d by (simp add: interpolated_def g py_truediv_def)
  moreover have "value_kf kf time = interpolated kf time (int ?i)"
    using assms(2,4,5) by (simp add: value_kf_def py_get_0 py_get_last)
  ultimately show ?thesis by simp
qed

lemma bisect_left_takeWhile:
  assumes "sorted ts"
  shows "bisect_left ts x = length (takeWhile (\<lambda>u. u < x) ts)"
proof -
  let ?i = "bisect_left ts x" and ?k = "length (takeWhile (\<lambda>u. u < x) ts)"
  note b = bisect_left_sorted [OF assms, of x]
  have "?i \<le> ?k"
    using b(1,2) by (simp add: length_takeWhile_less_P_nth)
  moreover have "?k \<le> ?i"
  proof (rule ccontr)
    assume "\<not> ?k \<le> ?i"
    then have lt: "?i < ?k" by simp
    then have "ts ! ?i < x"
      using nth_mem [of ?i "takeWhile (\<lambda>u. u < x) ts"] set_takeWhileD [of _ "\<lambda>u. u < x" ts]
      by (simp add: takeWhile_nth)
    moreover from lt have "?i < length ts"
      using length_takeWhile_le [of "\<lambda>u. u < x" ts] by simp
    with b(3) have "x \<le> ts ! ?i" by simp
    ultimately show False by simp
  qed
  ultimately show ?thesis by simp
qed

lemma keyframe_set_sorted: "keyframe_set kf \<Longrightarrow> sorted (times_kf kf)"
  by (simp add: keyframe_set_def strict_sorted_imp_sorted)

text \<open>
  Claim C2, as the code has it. On a keyframe set and a time strictly between the first
  and the last keyframe time, \<open>value\<close> takes for \<open>i\<close> the result of \<open>bisect_left\<close>, which
  is the index of the first keyframe time greater than or equal to \<open>time\<close> (not the
  first strictly greater one), with \<open>0 < i < len\<close> and \<open>t[i-1] < time \<le> t[i]\<close>, and
  returns \<open>interpolate(value[i], value[i-1], f)\<close> for
  \<open>f = (time - t[i-1]) / (t[i] - t[i-1])\<close>: the later value first, the earlier second.
\<close>

theorem value_interpolates_at_bisect_left:
  assumes "keyframe_set kf" "times_kf kf ! 0 < time" "time < last (times_kf kf)"
  shows "bisect_left (times_kf kf) time = length (takeWhile (\<lambda>u. u < time) (times_kf kf)) \<and>
         0 < bisect_left (times_kf kf) time \<and>
         bisect_left (times_kf kf) time < length (times_kf kf) \<and>
         times_kf kf ! (bisect_left (times_kf kf) time - 1) < time \<and>
         time \<le> times_kf kf ! bisect_left (times_kf kf) time \<and>
         value_kf kf time =
           Inr (interpolate kf (values_kf kf ! bisect_left (times_kf kf) time)
                  (values_kf kf ! (bisect_left (times_kf kf) time - 1))
                  ((time - times_kf kf ! (bisect_left (times_kf kf) time - 1)) /
                   (times_kf kf ! bisect_left (times_kf kf) time -
                    times_kf kf ! (bisect_left (times_kf kf) time - 1))))"
proof -
  from assms(1) have ne: "times_kf kf \<noteq> []"
    and len: "length (values_kf kf) = length (times_kf kf)"
    by (simp_all add: keyframe_set_def)
  note so = keyframe_set_sorted [OF assms(1)]
  note i = bisect_left_interior [OF so ne assms(2,3)]
  note v = value_kf_interior [OF so ne len assms(2,3)]
  from bisect_left_takeWhile [OF so, of time] i v show ?thesis by simp
qed

theorem value_interpolates_at_bisect_left_witness:
  "keyframe_set \<lparr>times_kf = [0, 1, 2], values_kf = [10, 20, 30], interpolate = hold_later\<rparr> \<and>
   bisect_left [0, 1, 2] (1 / 2) = 1 \<and>
   value_kf \<lparr>times_kf = [0, 1, 2], values_kf = [10, 20, 30], interpolate = hold_later\<rparr> (1 / 2)
     = Inr (hold_later 20 10 (1 / 2))"
proof -
  let ?kf = "\<lparr>times_kf = [0, 1, 2], values_kf = [10, 20, 30::real], interpolate = hold_later\<rparr>"
  have h: "keyframe_set ?kf" by (simp add: keyframe_set_def)
  have a: "times_kf ?kf ! 0 < 1 / 2" and b: "1 / 2 < last (times_kf ?kf)" by simp_all
  from value_interpolates_at_bisect_left [OF h a b] h show ?thesis by simp
qed

text \<open>
  The claim as stated fails at an interior keyframe time: at \<open>time = 1\<close> among the times
  0, 1, 2 the code takes \<open>i = 1\<close> and \<open>f = 1\<close>, where the first keyframe time strictly
  greater than \<open>time\<close> has index 2 and would give \<open>f = 0\<close>.
\<close>

theorem value_first_strictly_greater_counterexample:
  "keyframe_set \<lparr>times_kf = [0, 1, 2], values_kf = [10, 20, 30], interpolate = hold_later\<rparr> \<and>
   bisect_left [0, 1, 2] 1 = 1 \<and> spec_first_greater [0, 1, 2] 1 = 2 \<and>
   value_kf \<lparr>times_kf = [0, 1, 2], values_kf = [10, 20, 30], interpolate = hold_later\<rparr> 1
     = Inr 20 \<and>
   spec_value \<lparr>times_kf = [0, 1, 2], values_kf = [10, 20, 30], interpolate = hold_later\<rparr> 1
     = 30 \<and>
   value_kf \<lparr>times_kf = [0, 1, 2], values_kf = [10, 20, 30], interpolate = hold_later\<rparr> 1
     \<noteq> Inr (spec_value
              \<lparr>times_kf = [0, 1, 2], values_kf = [10, 20, 30], interpolate = hold_later\<rparr> 1)"
proof -
  have b: "bisect_left [0, 1, 2] 1 = 1" by code_simp
  have "value_kf \<lparr>times_kf = [0, 1, 2], values_kf = [10, 20, 30::real], interpolate = hold_later\<rparr> 1
        = Inr 20"
    by (simp add: value_kf_def interpolated_def py_get_def py_truediv_def b hold_later_def)
  then show ?thesis
    by (simp add: b keyframe_set_def spec_value_def spec_first_greater_def hold_later_def)
qed

lemma bisect_left_at_keyframe:
  assumes "sorted_wrt (<) ts" "i < length ts"
  shows "bisect_left ts (ts ! i) = i"
proof -
  let ?b = "bisect_left ts (ts ! i)"
  from assms(1) have so: "sorted ts" by (rule strict_sorted_imp_sorted)
  note b = bisect_left_sorted [OF so, of "ts ! i"]
  have "\<not> i < ?b" using b(2) by auto
  moreover have "\<not> ?b < i"
  proof
    assume lt: "?b < i"
    with assms have "ts ! ?b < ts ! i" by (simp add: sorted_wrt_nth_less)
    moreover from lt assms(2) b(3) have "ts ! i \<le> ts ! ?b" by simp
    ultimately show False by simp
  qed
  ultimately show ?thesis by simp
qed

lemma spec_lerp_one: "length later = length earlier \<Longrightarrow> spec_lerp later earlier 1 = later"
  by (induction later earlier rule: list_induct2) (simp_all add: spec_lerp_def)

lemma spec_lerp_zero: "length later = length earlier \<Longrightarrow> spec_lerp later earlier 0 = earlier"
  by (induction later earlier rule: list_induct2) (simp_all add: spec_lerp_def)

lemma value_kf_at_end:
  assumes "keyframe_set kf" "i = 0 \<or> i = length (times_kf kf) - 1"
  shows "value_kf kf (times_kf kf ! i) = Inr (values_kf kf ! i)"
proof -
  let ?ts = "times_kf kf" and ?vs = "values_kf kf"
  from assms(1) have ne: "?ts \<noteq> []" and len: "length ?vs = length ?ts"
    by (simp_all add: keyframe_set_def)
  from assms(2) show ?thesis
  proof
    assume "i = 0"
    with value_kf_low [OF ne len, of "?ts ! 0"] show ?thesis by simp
  next
    assume i: "i = length ?ts - 1"
    from ne len have "?vs \<noteq> []" by auto
    with i ne len last_conv_nth [of ?vs] have "?ts ! i = last ?ts" "?vs ! i = last ?vs"
      by (simp_all add: last_conv_nth)
    with value_kf_high [OF assms(1), of "?ts ! i"] show ?thesis by simp
  qed
qed

lemma value_kf_at_interior:
  assumes "keyframe_set kf" "0 < i" "i < length (times_kf kf) - 1"
  shows "bisect_left (times_kf kf) (times_kf kf ! i) = i"
    and "value_kf kf (times_kf kf ! i) =
           Inr (interpolate kf (values_kf kf ! i) (values_kf kf ! (i - 1)) 1)"
proof -
  let ?ts = "times_kf kf" and ?vs = "values_kf kf"
  from assms(1) have ne: "?ts \<noteq> []" and len: "length ?vs = length ?ts"
    and st: "sorted_wrt (<) ?ts"
    by (simp_all add: keyframe_set_def)
  from assms(3) have il: "i < length ?ts" by simp
  show b: "bisect_left ?ts (?ts ! i) = i" using st il by (rule bisect_left_at_keyframe)
  from assms(2) il st have lo: "?ts ! 0 < ?ts ! i" by (simp add: sorted_wrt_nth_less)
  from assms(3) st ne have hi: "?ts ! i < last ?ts"
    by (simp add: last_conv_nth sorted_wrt_nth_less)
  from assms(2) st il have "?ts ! (i - 1) < ?ts ! i" by (simp add: sorted_wrt_nth_less)
  then have f: "(?ts ! i - ?ts ! (i - 1)) / (?ts ! i - ?ts ! (i - 1)) = 1" by simp
  from value_kf_interior [OF keyframe_set_sorted [OF assms(1)] ne len lo hi] f
  show "value_kf kf (?ts ! i) = Inr (interpolate kf (?vs ! i) (?vs ! (i - 1)) 1)"
    by (simp add: b)
qed

text \<open>
  Claim C4, as the code has it. On a keyframe set with strictly increasing times,
  \<open>value\<close> at the first and at the last keyframe time returns the value stored with it,
  by the boundary tests. At any other keyframe time \<open>bisect_left\<close> finds the keyframe
  itself, the fraction is exactly 1, and \<open>value\<close> returns
  \<open>interpolate(value[i], value[i-1], 1)\<close>, whatever the interpolation function of the
  set is: the stored value when that function returns its first argument at fraction 1.
\<close>

theorem value_at_keyframe_time:
  assumes "keyframe_set kf" "i < length (times_kf kf)"
  shows "(i = 0 \<or> i = length (times_kf kf) - 1 \<longrightarrow>
            value_kf kf (times_kf kf ! i) = Inr (values_kf kf ! i)) \<and>
         (0 < i \<and> i < length (times_kf kf) - 1 \<longrightarrow>
            bisect_left (times_kf kf) (times_kf kf ! i) = i \<and>
            value_kf kf (times_kf kf ! i) =
              Inr (interpolate kf (values_kf kf ! i) (values_kf kf ! (i - 1)) 1)) \<and>
         (interpolate kf (values_kf kf ! i) (values_kf kf ! (i - 1)) 1 = values_kf kf ! i \<longrightarrow>
            value_kf kf (times_kf kf ! i) = Inr (values_kf kf ! i))"
proof -
  have e: "value_kf kf (times_kf kf ! i) = Inr (values_kf kf ! i)"
    if "i = 0 \<or> i = length (times_kf kf) - 1"
    using assms(1) that by (rule value_kf_at_end)
  have m: "bisect_left (times_kf kf) (times_kf kf ! i) = i \<and>
        value_kf kf (times_kf kf ! i) =
          Inr (interpolate kf (values_kf kf ! i) (values_kf kf ! (i - 1)) 1)"
    if "0 < i \<and> i < length (times_kf kf) - 1"
    using value_kf_at_interior [OF assms(1), of i] that by simp
  have "value_kf kf (times_kf kf ! i) = Inr (values_kf kf ! i)"
    if p: "interpolate kf (values_kf kf ! i) (values_kf kf ! (i - 1)) 1 = values_kf kf ! i"
  proof (cases "i = 0 \<or> i = length (times_kf kf) - 1")
    case True
    then show ?thesis by (rule e)
  next
    case False
    with assms(2) have "0 < i \<and> i < length (times_kf kf) - 1" by auto
    from m [OF this] p show ?thesis by simp
  qed
  with e m show ?thesis by blast
qed

theorem value_at_keyframe_time_witness:
  "keyframe_set \<lparr>times_kf = [0, 1, 2], values_kf = [[0, 0, 0], [1, 2, 3], [4, 4, 4]],
                 interpolate = spec_lerp\<rparr> \<and>
   value_kf \<lparr>times_kf = [0, 1, 2], values_kf = [[0, 0, 0], [1, 2, 3], [4, 4, 4]],
             interpolate = spec_lerp\<rparr> 0 = Inr [0, 0, 0] \<and>
   value_kf \<lparr>times_kf = [0, 1, 2], values_kf = [[0, 0, 0], [1, 2, 3], [4, 4, 4]],
             interpolate = spec_lerp\<rparr> 1 = Inr (spec_lerp [1, 2, 3] [0, 0, 0] 1) \<and>
   spec_lerp [1, 2, 3] [0, 0, 0] 1 = [1, 2, 3] \<and>
   value_kf \<lparr>times_kf = [0, 1, 2], values_kf = [[0, 0, 0], [1, 2, 3], [4, 4, 4]],
             interpolate = spec_lerp\<rparr> 1 = Inr [1, 2, 3]"
proof -
  let ?kf = "\<lparr>times_kf = [0, 1, 2], values_kf = [[0, 0, 0], [1, 2, 3], [4, 4, 4 :: real]],
              interpolate = spec_lerp\<rparr>"
  have h: "keyframe_set ?kf" by (simp add: keyframe_set_def)
  have i0: "0 < length (times_kf ?kf)" and i1: "1 < length (times_kf ?kf)" by simp_all
  have e: "spec_lerp [1, 2, 3] [0, 0, 0] 1 = [1, 2, 3]" by (simp add: spec_lerp_def)
  from value_at_keyframe_time [OF h i0] value_at_keyframe_time [OF h i1] h e
  show ?thesis by simp
qed

text \<open>
  The claim as stated fails for a keyframe set whose interpolation function blends from
  its first argument: at the keyframe time 1 among the times 0, 1, 2 the code calls it
  with the later value first and fraction 1, and the value returned is the one stored at
  the keyframe before.
\<close>

theorem value_at_keyframe_time_counterexample:
  "keyframe_set \<lparr>times_kf = [0, 1, 2], values_kf = [10, 20, 30],
                 interpolate = blend_from_first\<rparr> \<and>
   [0, 1, 2] ! 1 = (1 :: real) \<and> [10, 20, 30] ! 1 = (20 :: real) \<and>
   value_kf \<lparr>times_kf = [0, 1, 2], values_kf = [10, 20, 30],
             interpolate = blend_from_first\<rparr> 1 = Inr 10 \<and>
   value_kf \<lparr>times_kf = [0, 1, 2], values_kf = [10, 20, 30],
             interpolate = blend_from_first\<rparr> 1 \<noteq> Inr 20"
proof -
  have b: "bisect_left [0, 1, 2] 1 = 1" by code_simp
  have "value_kf \<lparr>times_kf = [0, 1, 2], values_kf = [10, 20, 30 :: real],
                  interpolate = blend_from_first\<rparr> 1 = Inr 10"
    by (simp add: value_kf_def interpolated_def py_get_def py_truediv_def b blend_from_first_def)
  then show ?thesis by (simp add: keyframe_set_def)
qed

section \<open>Construction of keyframe sets\<close>

lemma KeyFrames_init_empty: "KeyFrames_init cmp [] f = Inl ValueError"
  by (simp add: KeyFrames_init_def)

lemma sort_eq_Nil_iff: "sort ps = [] \<longleftrightarrow> ps = []"
proof
  assume "sort ps = []"
  then have "mset (sort ps) = {#}" by simp
  then show "ps = []" by simp
qed simp

lemma KeyFrames_init_nonempty:
  assumes "ps \<noteq> []" "cmp = Ordered \<or> distinct (map fst ps)"
  shows "KeyFrames_init cmp ps f =
     Inr \<lparr>times_kf = map fst (sort ps), values_kf = map snd (sort ps), interpolate = f\<rparr>"
  using assms by (auto simp: KeyFrames_init_def Let_def sort_eq_Nil_iff)


lemma KeyFrames_init_Inr:
  assumes "KeyFrames_init cmp ps f = Inr kf"
  shows "ps \<noteq> []"
    and "cmp = Ordered \<or> distinct (map fst ps)"
    and "kf = \<lparr>times_kf = map fst (sort ps), values_kf = map snd (sort ps), interpolate = f\<rparr>"
proof -
  from assms show ne: "ps \<noteq> []" by (auto simp: KeyFrames_init_empty)
  from assms show c: "cmp = Ordered \<or> distinct (map fst ps)"
    by (cases cmp) (auto simp: KeyFrames_init_def split: if_splits)
  from KeyFrames_init_nonempty [OF ne c, of f] assms
  show "kf = \<lparr>times_kf = map fst (sort ps), values_kf = map snd (sort ps), interpolate = f\<rparr>"
    by simp
qed

lemma sorted_map_fst:
  fixes ps :: "('a::linorder \<times> 'b::linorder) list"
  shows "sorted ps \<Longrightarrow> sorted (map fst ps)"
  by (induction ps) (auto simp: less_eq_prod_def)

lemma map_fst_sort:
  fixes ps :: "('a::linorder \<times> 'b::linorder) list"
  shows "map fst (sort ps) = sort (map fst ps)"
proof -
  have "mset (map fst (sort ps)) = mset (map fst ps)" by simp
  moreover have "sorted (map fst (sort ps))" by (simp add: sorted_map_fst)
  ultimately have "sort (map fst ps) = map fst (sort ps)" by (rule properties_for_sort)
  then show ?thesis by simp
qed

lemma KeyFrames_init_shape:
  assumes "KeyFrames_init cmp ps f = Inr kf"
  shows "times_kf kf \<noteq> []" "length (values_kf kf) = length (times_kf kf)"
    "sorted (times_kf kf)" "times_kf kf = sort (map fst ps)" "length (times_kf kf) = length ps"
  using KeyFrames_init_Inr [OF assms]
  by (simp_all add: sort_eq_Nil_iff sorted_map_fst map_fst_sort)

lemma KeyFrames_init_distinct:
  assumes "KeyFrames_init cmp ps f = Inr kf" "distinct (map fst ps)"
  shows "keyframe_set kf"
proof -
  note s = KeyFrames_init_shape [OF assms(1)]
  from assms(2) s(4) have "distinct (times_kf kf)" by simp
  with s(3) have "sorted_wrt (<) (times_kf kf)" by (simp add: strict_sorted_iff)
  with s(1,2) show ?thesis by (simp add: keyframe_set_def)
qed

lemma value_kf_total:
  assumes "sorted (times_kf kf)" "times_kf kf \<noteq> []"
    and "length (values_kf kf) = length (times_kf kf)"
  shows "\<exists>v. value_kf kf time = Inr v"
proof -
  consider "time \<le> times_kf kf ! 0"
    | "\<not> time \<le> times_kf kf ! 0" "time \<ge> last (times_kf kf)"
    | "times_kf kf ! 0 < time" "time < last (times_kf kf)"
    by linarith
  then show ?thesis
  proof cases
    case 1
    with value_kf_low [OF assms(2,3)] show ?thesis by blast
  next
    case 2
    with value_kf_high_gen [OF assms(2,3)] show ?thesis by blast
  next
    case 3
    with value_kf_interior [OF assms] show ?thesis by blast
  qed
qed

lemma KeyFrames_init_total:
  assumes "KeyFrames_init cmp ps f = Inr kf"
  shows "\<exists>v. value_kf kf time = Inr v"
  using KeyFrames_init_shape [OF assms] by (intro value_kf_total)

lemma KeyFrames_of_arg_total:
  "KeyFrames_of_arg arg f = Inr kf \<Longrightarrow> \<exists>v. value_kf kf time = Inr v"
  by (cases arg) (auto simp: KeyFrames_of_arg_def dest: KeyFrames_init_total)

lemma TransformKeyFrames_init_Inr:
  assumes "TransformKeyFrames_init tm tk rk sk = Inr tkf"
  shows "KeyFrames_of_arg tk (lerp tm) = Inr (translate_keys tkf)"
    and "KeyFrames_of_arg rk (quaternion_slerp tm) = Inr (rotate_keys tkf)"
    and "KeyFrames_of_arg sk (lerp tm) = Inr (scale_keys tkf)"
  using assms by (auto simp: TransformKeyFrames_init_def split: sum.splits)

lemma TransformKeyFrames_value_total:
  assumes "TransformKeyFrames_init tm tk rk sk = Inr tkf"
  shows "\<exists>tv rv sv.
    value_kf (translate_keys tkf) time = Inr tv \<and>
    value_kf (rotate_keys tkf) time = Inr rv \<and>
    value_kf (scale_keys tkf) time = Inr sv \<and>
    TransformKeyFrames_value tm tkf time =
      Inr (matmul (matmul (translate tm tv) (quaternion_matrix tm rv)) (scale tm sv))"
proof -
  note k = TransformKeyFrames_init_Inr [OF assms]
  from KeyFrames_of_arg_total [OF k(1), of time] obtain tv
    where tv: "value_kf (translate_keys tkf) time = Inr tv" by blast
  from KeyFrames_of_arg_total [OF k(2), of time] obtain rv
    where rv: "value_kf (rotate_keys tkf) time = Inr rv" by blast
  from KeyFrames_of_arg_total [OF k(3), of time] obtain sv
    where sv: "value_kf (scale_keys tkf) time = Inr sv" by blast
  from tv rv sv show ?thesis by (simp add: TransformKeyFrames_value_def)
qed


text \<open>
  Claim C3, as the code has it. On every keyframe set built by the constructor, \<open>value\<close>
  returns the first value at every time up to the first keyframe time. It returns the
  last value at every time from the last keyframe time on that is also after the first
  keyframe time, and at every time from the last keyframe time on when the keyframe
  times are distinct; a set of one keyframe returns its value at every time. The test
  against the first keyframe time comes first: at a time equal to both the first and the
  last keyframe time the first value is returned.
\<close>

theorem value_clamps_at_boundaries:
  assumes "KeyFrames_init cmp ps f = Inr kf"
  shows "(time \<le> times_kf kf ! 0 \<longrightarrow> value_kf kf time = Inr (values_kf kf ! 0)) \<and>
         (times_kf kf ! 0 < time \<and> time \<ge> last (times_kf kf) \<longrightarrow>
            value_kf kf time = Inr (last (values_kf kf))) \<and>
         (distinct (map fst ps) \<and> time \<ge> last (times_kf kf) \<longrightarrow>
            value_kf kf time = Inr (last (values_kf kf))) \<and>
         (length ps = 1 \<longrightarrow> value_kf kf time = Inr (values_kf kf ! 0))"
proof (intro conjI impI)
  note s = KeyFrames_init_shape [OF assms]
  show low: "value_kf kf time = Inr (values_kf kf ! 0)" if "time \<le> times_kf kf ! 0"
    using value_kf_low [OF s(1,2) that] .
  show high: "value_kf kf time = Inr (last (values_kf kf))"
    if "times_kf kf ! 0 < time \<and> time \<ge> last (times_kf kf)"
    using value_kf_high_gen [OF s(1,2), of time] that by simp
  show "value_kf kf time = Inr (last (values_kf kf))"
    if "distinct (map fst ps) \<and> time \<ge> last (times_kf kf)"
    using value_kf_high [OF KeyFrames_init_distinct [OF assms], of time] that by simp
  show "value_kf kf time = Inr (values_kf kf ! 0)" if one: "length ps = 1"
  proof (cases "time \<le> times_kf kf ! 0")
    case True
    then show ?thesis by (rule low)
  next
    case False
    from one s(5) have l: "length (times_kf kf) = 1" by simp
    then have "last (times_kf kf) = times_kf kf ! 0"
      by (cases "times_kf kf") simp_all
    with False have "times_kf kf ! 0 < time \<and> time \<ge> last (times_kf kf)" by simp
    moreover from l s(2) have "last (values_kf kf) = values_kf kf ! 0"
      by (cases "values_kf kf") simp_all
    ultimately show ?thesis using high by simp
  qed
qed

theorem value_clamps_at_boundaries_witness:
  "KeyFrames_init Ordered [(0, 10), (1, 20), (2, 30)] hold_later
     = Inr \<lparr>times_kf = [0, 1, 2], values_kf = [10, 20, 30], interpolate = hold_later\<rparr> \<and>
   value_kf \<lparr>times_kf = [0, 1, 2], values_kf = [10, 20, 30], interpolate = hold_later\<rparr> (- 1)
     = Inr (10::real) \<and>
   value_kf \<lparr>times_kf = [0, 1, 2], values_kf = [10, 20, 30], interpolate = hold_later\<rparr> 5
     = Inr (30::real) \<and>
   KeyFrames_init Ordered [(3, 7)] hold_later
     = Inr \<lparr>times_kf = [3], values_kf = [7], interpolate = hold_later\<rparr> \<and>
   value_kf \<lparr>times_kf = [3], values_kf = [7], interpolate = hold_later\<rparr> 4 = Inr (7::real)"
proof -
  let ?kf = "\<lparr>times_kf = [0, 1, 2], values_kf = [10, 20, 30::real], interpolate = hold_later\<rparr>"
  let ?one = "\<lparr>times_kf = [3], values_kf = [7::real], interpolate = hold_later\<rparr>"
  have h: "KeyFrames_init Ordered [(0, 10), (1, 20), (2, 30)] hold_later = Inr ?kf"
    and h1: "KeyFrames_init Ordered [(3, 7)] hold_later = Inr ?one"
    by (simp_all add: KeyFrames_init_def less_eq_prod_def)
  from value_clamps_at_boundaries [OF h, of "- 1"] value_clamps_at_boundaries [OF h, of 5]
    value_clamps_at_boundaries [OF h1, of 4] h h1
  show ?thesis by simp
qed

text \<open>
  The claim as stated fails on a keyframe set the constructor builds from two keyframes
  of equal time: at that time, which is not before the last keyframe time, \<open>value\<close>
  returns the first value, not the last.
\<close>

theorem value_clamp_repeated_time_counterexample:
  "KeyFrames_init Ordered [(0, 10), (0, 20)] hold_later
     = Inr \<lparr>times_kf = [0, 0], values_kf = [10, 20], interpolate = hold_later\<rparr> \<and>
   last (times_kf \<lparr>times_kf = [0, 0], values_kf = [10, 20 :: real],
                   interpolate = hold_later\<rparr>) \<le> 0 \<and>
   value_kf \<lparr>times_kf = [0, 0], values_kf = [10, 20], interpolate = hold_later\<rparr> 0
     = Inr (10 :: real) \<and>
   value_kf \<lparr>times_kf = [0, 0], values_kf = [10, 20 :: real], interpolate = hold_later\<rparr> 0
     \<noteq> Inr (last (values_kf \<lparr>times_kf = [0, 0], values_kf = [10, 20 :: real],
                               interpolate = hold_later\<rparr>))"
  by (simp add: KeyFrames_init_def less_eq_prod_def value_kf_def py_get_def)




section \<open>Matrix products and TransformKeyFrames\<close>

lemma matmul_identity_right: "matmul M identity = M"
  by (cases M rule: transpose4.cases) (simp add: identity_def)

lemma matmul_identity_left: "matmul identity M = M"
  by (cases M rule: transpose4.cases) (simp add: identity_def)

lemma matmul_assoc: "matmul (matmul A B) C = matmul A (matmul B C)"
  by (cases A rule: transpose4.cases; cases B rule: transpose4.cases;
      cases C rule: transpose4.cases)
    (simp add: algebra_simps)

lemma KeyFrames_of_arg_interpolate:
  "KeyFrames_of_arg arg f = Inr kf \<Longrightarrow> interpolate kf = f"
  by (cases arg) (auto simp: KeyFrames_of_arg_def KeyFrames_init_def Let_def split: if_splits)

text \<open>
  Claim C5. For a track built by \<open>TransformKeyFrames\<close> and every time, the three
  key sets each yield a value, the rotation set interpolating with \<open>quaternion_slerp\<close>
  and the two others with \<open>lerp\<close>, and \<open>value\<close> returns the product
  \<open>translate(tv) @ quaternion_matrix(rv) @ scale(sv)\<close>: T, then R, then S.
\<close>

theorem TransformKeyFrames_value_is_TRS:
  assumes "TransformKeyFrames_init tm tk rk sk = Inr tkf"
  shows "interpolate (translate_keys tkf) = lerp tm \<and>
         interpolate (rotate_keys tkf) = quaternion_slerp tm \<and>
         interpolate (scale_keys tkf) = lerp tm \<and>
         (\<exists>tv rv sv.
            value_kf (translate_keys tkf) time = Inr tv \<and>
            value_kf (rotate_keys tkf) time = Inr rv \<and>
            value_kf (scale_keys tkf) time = Inr sv \<and>
            TransformKeyFrames_value tm tkf time =
              Inr (matmul (matmul (translate tm tv) (quaternion_matrix tm rv)) (scale tm sv)) \<and>
            TransformKeyFrames_value tm tkf time =
              Inr (matmul (translate tm tv) (matmul (quaternion_matrix tm rv) (scale tm sv))))"
proof -
  note k = TransformKeyFrames_init_Inr [OF assms]
  from TransformKeyFrames_value_total [OF assms, of time] obtain tv rv sv where
    "value_kf (translate_keys tkf) time = Inr tv"
    "value_kf (rotate_keys tkf) time = Inr rv"
    "value_kf (scale_keys tkf) time = Inr sv"
    "TransformKeyFrames_value tm tkf time =
       Inr (matmul (matmul (translate tm tv) (quaternion_matrix tm rv)) (scale tm sv))"
    by blast
  moreover from this(4) have "TransformKeyFrames_value tm tkf time =
       Inr (matmul (translate tm tv) (matmul (quaternion_matrix tm rv) (scale tm sv)))"
    by (simp add: matmul_assoc)
  ultimately show ?thesis
    using k [THEN KeyFrames_of_arg_interpolate] by blast
qed

theorem TransformKeyFrames_value_is_TRS_witness:
  "TransformKeyFrames_init example_module
     (Some [(0, [0, 0, 0]), (2, [2, 4, 6])]) (Some [(0, [1, 0, 0, 0])])
     (Some [(0, [1, 1, 1]), (2, [3, 3, 3])])
   = Inr \<lparr>translate_keys = \<lparr>times_kf = [0, 2], values_kf = [[0, 0, 0], [2, 4, 6]],
                              interpolate = spec_lerp\<rparr>,
          rotate_keys = \<lparr>times_kf = [0], values_kf = [[1, 0, 0, 0]], interpolate = spec_lerp\<rparr>,
          scale_keys = \<lparr>times_kf = [0, 2], values_kf = [[1, 1, 1], [3, 3, 3]],
                         interpolate = spec_lerp\<rparr>\<rparr> \<and>
   TransformKeyFrames_value example_module
     \<lparr>translate_keys = \<lparr>times_kf = [0, 2], values_kf = [[0, 0, 0], [2, 4, 6]],
                         interpolate = spec_lerp\<rparr>,
      rotate_keys = \<lparr>times_kf = [0], values_kf = [[1, 0, 0, 0]], interpolate = spec_lerp\<rparr>,
      scale_keys = \<lparr>times_kf = [0, 2], values_kf = [[1, 1, 1], [3, 3, 3]],
                     interpolate = spec_lerp\<rparr>\<rparr> 1
   = Inr (matmul (matmul (example_translate [1, 2, 3]) (example_quaternion_matrix [1, 0, 0, 0]))
            (example_scale [2, 2, 2]))"
proof -
  let ?tkf = "\<lparr>translate_keys = \<lparr>times_kf = [0, 2], values_kf = [[0, 0, 0], [2, 4, 6]],
                              interpolate = spec_lerp\<rparr>,
          rotate_keys = \<lparr>times_kf = [0], values_kf = [[1, 0, 0, 0]], interpolate = spec_lerp\<rparr>,
          scale_keys = \<lparr>times_kf = [0, 2], values_kf = [[1, 1, 1], [3, 3, 3]],
                         interpolate = spec_lerp\<rparr>\<rparr>"
  have t: "TransformKeyFrames_init example_module
     (Some [(0, [0, 0, 0]), (2, [2, 4, 6])]) (Some [(0, [1, 0, 0, 0])])
     (Some [(0, [1, 1, 1]), (2, [3, 3, 3])]) = Inr ?tkf"
    by (simp add: TransformKeyFrames_init_def KeyFrames_of_arg_def KeyFrames_init_def
        example_module_def less_eq_prod_def list_le_def list_less_def)
  have b: "bisect_left [0, 2] 1 = 1" by code_simp
  have v: "value_kf (translate_keys ?tkf) 1 = Inr [1, 2, 3]"
    "value_kf (rotate_keys ?tkf) 1 = Inr [1, 0, 0, 0]"
    "value_kf (scale_keys ?tkf) 1 = Inr [2, 2, 2]"
    by (simp_all add: value_kf_def interpolated_def py_get_def py_truediv_def b spec_lerp_def)
  from TransformKeyFrames_value_is_TRS [OF t, of 1] v t show ?thesis
    by (simp add: example_module_def)
qed

section \<open>Scene graph traversal\<close>

lemma draw_transform_frame:
  "draw tm clk sc projection view model s = Inr (s', calls) \<Longrightarrow> q \<notin> animated sc \<Longrightarrow>
   transform s' q = transform s q"
  "draw_children tm clk r cs projection view model s = Inr (s', calls) \<Longrightarrow>
   q \<notin> animated_list cs \<Longrightarrow> transform s' q = transform s q"
proof (induction tm clk sc projection view model s and tm clk r cs projection view model s
    arbitrary: s' calls and s' calls rule: draw_draw_children.induct)
  case (1 tm clk r children projection view model s)
  then show ?case by simp
next
  case (2 tm clk r keyframes children projection view model s)
  then show ?case by (auto split: sum.splits)
next
  case (3 tm clk r keyframes children projection view model s)
  then show ?case by (cases keyframes) (auto split: sum.splits)
next
  case (4 tm clk g projection view model s)
  then show ?case by simp
next
  case (5 tm clk g bone_nodes bone_offsets projection view model s)
  then show ?case by (auto simp: SkinnedMesh_draw_def split: sum.splits)
next
  case (6 tm clk g bone_nodes bone_offsets projection view model s)
  then show ?case
    by (auto simp: TexturedPhongMeshSkinned_draw_def Let_def split: sum.splits if_splits)
next
  case (7 tm clk r projection view model s)
  then show ?case by simp
next
  case (8 tm clk r child rest projection view model s)
  from "8.prems"(1) obtain s1 calls1 calls2 where
    d: "draw tm clk child projection view (matmul model (transform s r)) s = Inr (s1, calls1)"
    and dc: "draw_children tm clk r rest projection view model s1 = Inr (s', calls2)"
    by (auto split: sum.splits)
  from "8.prems"(2) have q: "q \<notin> animated child" "q \<notin> animated_list rest" by simp_all
  from "8.IH"(1) [OF d q(1)] have "transform s1 q = transform s q" .
  moreover from "8.IH"(2) [OF d refl dc q(2)] have "transform s' q = transform s1 q" .
  ultimately show ?case by simp
qed

lemma draw_children_each_in_order:
  "r \<notin> animated_list cs \<Longrightarrow>
   draw_children tm clk r cs projection view model s =
   each_in_order (\<lambda>child. draw tm clk child projection view (matmul model (transform s r))) cs s"
proof (induction cs arbitrary: s)
  case Nil
  show ?case by simp
next
  case (Cons child rest)
  from Cons.prems have r: "r \<notin> animated child" "r \<notin> animated_list rest" by simp_all
  show ?case
  proof (cases "draw tm clk child projection view (matmul model (transform s r)) s")
    case (Inl e)
    then show ?thesis by simp
  next
    case (Inr p)
    obtain s1 calls1 where p: "p = (s1, calls1)" by (cases p)
    from draw_transform_frame(1) [OF Inr [unfolded p] r(1)]
    have "transform s1 r = transform s r" .
    with Cons.IH [OF r(2), of s1] Inr p show ?thesis by simp
  qed
qed


text \<open>
  Claim C6. \<open>Node.draw\<close> with parent matrix \<open>model\<close> draws the children from left to
  right, in the order of the list of children, each with the model matrix
  \<open>model @ transform\<close> (the node is not one of the animated nodes below it, whose
  transform the traversal reassigns). For a chain of three nodes with transforms A, B, C
  drawn from the identity, the drawable under the last node receives \<open>A @ B @ C\<close>, and
  a node whose transform is the identity hands \<open>model\<close> on unchanged.
\<close>

theorem Node_draw_composes_world_matrix:
  "(r \<notin> animated_list children \<longrightarrow>
      draw tm clk (Node r children) projection view model s =
      each_in_order
        (\<lambda>child. draw tm clk child projection view (matmul model (transform s r))) children s) \<and>
   draw tm clk (Node a [Node b [Node c [Mesh g]]]) projection view identity s =
     Inr (s, Mesh_draw g projection view
               (matmul (matmul (transform s a) (transform s b)) (transform s c))) \<and>
   (r \<notin> animated_list children \<and> transform s r = identity \<longrightarrow>
      draw tm clk (Node r children) projection view model s =
      each_in_order (\<lambda>child. draw tm clk child projection view model) children s)"
proof (intro conjI impI)
  show "draw tm clk (Node r children) projection view model s =
      each_in_order
        (\<lambda>child. draw tm clk child projection view (matmul model (transform s r))) children s"
    if "r \<notin> animated_list children"
    using that by (simp add: draw_children_each_in_order)
  show "draw tm clk (Node a [Node b [Node c [Mesh g]]]) projection view identity s =
     Inr (s, Mesh_draw g projection view
               (matmul (matmul (transform s a) (transform s b)) (transform s c)))"
    by (simp add: matmul_identity_left)
  show "draw tm clk (Node r children) projection view model s =
      each_in_order (\<lambda>child. draw tm clk child projection view model) children s"
    if "r \<notin> animated_list children \<and> transform s r = identity"
    using that draw_children_each_in_order [of r children tm clk projection view model s]
    by (simp add: matmul_identity_right)
qed

theorem Node_draw_composes_world_matrix_witness:
  "0 \<notin> animated_list [Mesh 7, Mesh 8] \<and>
   draw example_module (\<lambda>k. 0) (Node 0 [Mesh 7, Mesh 8]) identity identity
     (example_translate [1, 2, 3])
     \<lparr>transform = (\<lambda>r. example_scale [2, 2, 2]), world_transform = (\<lambda>r. None), time_reads = 0\<rparr>
   = Inr (\<lparr>transform = (\<lambda>r. example_scale [2, 2, 2]), world_transform = (\<lambda>r. None),
           time_reads = 0\<rparr>,
          Mesh_draw 7 identity identity
            (matmul (example_translate [1, 2, 3]) (example_scale [2, 2, 2])) @
          Mesh_draw 8 identity identity
            (matmul (example_translate [1, 2, 3]) (example_scale [2, 2, 2]))) \<and>
   transform \<lparr>transform = (\<lambda>r. identity), world_transform = (\<lambda>r. None), time_reads = 0\<rparr> 0
     = identity \<and>
   draw example_module (\<lambda>k. 0) (Node 0 [Mesh 7, Mesh 8]) identity identity
     (example_translate [1, 2, 3])
     \<lparr>transform = (\<lambda>r. identity), world_transform = (\<lambda>r. None), time_reads = 0\<rparr>
   = Inr (\<lparr>transform = (\<lambda>r. identity), world_transform = (\<lambda>r. None), time_reads = 0\<rparr>,
          Mesh_draw 7 identity identity (example_translate [1, 2, 3]) @
          Mesh_draw 8 identity identity (example_translate [1, 2, 3]))"
proof -
  let ?s = "\<lparr>transform = (\<lambda>r. example_scale [2, 2, 2]), world_transform = (\<lambda>r. None),
             time_reads = 0\<rparr>"
  let ?i = "\<lparr>transform = (\<lambda>r. identity), world_transform = (\<lambda>r. None), time_reads = 0\<rparr>"
  have h: "0 \<notin> animated_list [Mesh 7, Mesh 8]" by simp
  have hi: "0 \<notin> animated_list [Mesh 7, Mesh 8] \<and> transform ?i 0 = identity" by simp
  from Node_draw_composes_world_matrix
         [of 0 "[Mesh 7, Mesh 8]" example_module "\<lambda>k. 0" identity identity
            "example_translate [1, 2, 3]" ?s]
       Node_draw_composes_world_matrix
         [of 0 "[Mesh 7, Mesh 8]" example_module "\<lambda>k. 0" identity identity
            "example_translate [1, 2, 3]" ?i] h hi
  show ?thesis by simp
qed

lemma SkinningControlNode_init_falsy:
  "\<not> truthy k0 \<Longrightarrow>
   SkinningControlNode_init tm r (k0 # rest) t s =
     Inr (SkinningControlNode r None [],
          s\<lparr>transform := (transform s)(r := t),
            world_transform := (world_transform s)(r \<mapsto> identity)\<rparr>)"
  by (simp add: SkinningControlNode_init_def py_get_def)

lemma unanimated_draw:
  assumes "draw tm clk (SkinningControlNode r None children) projection view model s
           = Inr (s', calls)"
    and "r \<notin> animated_list children"
  shows "transform s' r = transform s r"
  using draw_transform_frame(1) [OF assms(1)] assms(2) by simp

text \<open>
  Claim C8. A \<open>SkinningControlNode\<close> constructed with the no-animation sentinel \<open>None\<close>
  as its first key set holds no keyframes and the transform it was given. Whatever
  children are added to it afterwards (none of them an animated node at the same
  reference), every \<open>draw\<close> that returns leaves the node's transform as it was before the
  call, and draws the children as a plain \<open>Node\<close> does, after the world transform
  \<open>model @ transform\<close> has been stored.
\<close>

theorem unanimated_node_keeps_transform:
  assumes "SkinningControlNode_init tm r (None # rest) t s0 = Inr (node, s1)"
    and "draw tm clk (add node children) projection view model s = Inr (s', calls)"
    and "r \<notin> animated_list children"
  shows "node = SkinningControlNode r None [] \<and> transform s1 r = t \<and>
         transform s' r = transform s r \<and>
         draw tm clk (Node r children) projection view model
           (s\<lparr>world_transform := (world_transform s)(r \<mapsto> matmul model (transform s r))\<rparr>)
           = Inr (s', calls)"
proof -
  have "\<not> truthy None" by simp
  from SkinningControlNode_init_falsy [OF this, of tm r rest t s0] assms(1)
  have n: "node = SkinningControlNode r None []" and s1: "transform s1 r = t" by auto
  from assms(2) n
  have d: "draw tm clk (SkinningControlNode r None children) projection view model s
           = Inr (s', calls)" by simp
  from unanimated_draw [OF d assms(3)] have "transform s' r = transform s r" .
  moreover from d have "draw tm clk (Node r children) projection view model
           (s\<lparr>world_transform := (world_transform s)(r \<mapsto> matmul model (transform s r))\<rparr>)
           = Inr (s', calls)" by simp
  ultimately show ?thesis using n s1 by simp
qed

theorem unanimated_node_keeps_transform_witness:
  "SkinningControlNode_init example_module 0 [None] (example_translate [1, 2, 3])
     \<lparr>transform = (\<lambda>r. identity), world_transform = (\<lambda>r. None), time_reads = 0\<rparr>
   = Inr (SkinningControlNode 0 None [],
          \<lparr>transform = (\<lambda>r. identity)(0 := example_translate [1, 2, 3]),
           world_transform = (\<lambda>r. None)(0 \<mapsto> identity), time_reads = 0\<rparr>) \<and>
   draw example_module (\<lambda>k. 5) (add (SkinningControlNode 0 None []) [Mesh 7]) identity identity
     (example_scale [2, 2, 2])
     \<lparr>transform = (\<lambda>r. identity)(0 := example_translate [1, 2, 3]),
      world_transform = (\<lambda>r. None)(0 \<mapsto> identity), time_reads = 0\<rparr>
   = Inr (\<lparr>transform = (\<lambda>r. identity)(0 := example_translate [1, 2, 3]),
           world_transform = (\<lambda>r. None)(0 \<mapsto>
             matmul (example_scale [2, 2, 2]) (example_translate [1, 2, 3])),
           time_reads = 0\<rparr>,
          Mesh_draw 7 identity identity
            (matmul (example_scale [2, 2, 2]) (example_translate [1, 2, 3]))) \<and>
   0 \<notin> animated_list [Mesh 7] \<and>
   transform \<lparr>transform = (\<lambda>r. identity)(0 := example_translate [1, 2, 3]),
           world_transform = (\<lambda>r. None)(0 \<mapsto>
             matmul (example_scale [2, 2, 2]) (example_translate [1, 2, 3])),
           time_reads = 0\<rparr> 0 = example_translate [1, 2, 3]"
proof -
  let ?s0 = "\<lparr>transform = (\<lambda>r. identity), world_transform = (\<lambda>r. None), time_reads = 0\<rparr>"
  let ?s1 = "\<lparr>transform = (\<lambda>r. identity)(0 := example_translate [1, 2, 3]),
           world_transform = (\<lambda>r. None)(0 \<mapsto> identity), time_reads = 0\<rparr>"
  let ?s2 = "\<lparr>transform = (\<lambda>r. identity)(0 := example_translate [1, 2, 3]),
           world_transform = (\<lambda>r. None)(0 \<mapsto>
             matmul (example_scale [2, 2, 2]) (example_translate [1, 2, 3])),
           time_reads = 0\<rparr>"
  have i: "SkinningControlNode_init example_module 0 (None # []) (example_translate [1, 2, 3]) ?s0
           = Inr (SkinningControlNode 0 None [], ?s1)"
    by (simp add: SkinningControlNode_init_def py_get_def)
  have d: "draw example_module (\<lambda>k. 5) (add (SkinningControlNode 0 None []) [Mesh 7])
             identity identity (example_scale [2, 2, 2]) ?s1
           = Inr (?s2, Mesh_draw 7 identity identity
                    (matmul (example_scale [2, 2, 2]) (example_translate [1, 2, 3])))"
    by simp
  have a: "0 \<notin> animated_list [Mesh 7]" by simp
  from unanimated_node_keeps_transform [OF i d a] i d a show ?thesis by simp
qed

text \<open>
  Claim C10. \<open>SkinningControlNode\<close> looks at its first key set only. When that is
  \<open>None\<close> or empty the node is built without keyframes, whatever key sets follow it,
  and a \<open>draw\<close> of it (with any children that are not animated nodes at the same
  reference) leaves its transform as it was. When the first key set is not empty, a node
  that is built holds the keyframes made of all the key sets.
\<close>

theorem first_key_decides_animation:
  "(\<not> truthy k0 \<longrightarrow>
      SkinningControlNode_init tm r (k0 # rest) t s =
        Inr (SkinningControlNode r None [],
             s\<lparr>transform := (transform s)(r := t),
               world_transform := (world_transform s)(r \<mapsto> identity)\<rparr>)) \<and>
   (\<not> truthy k0 \<and> SkinningControlNode_init tm r (k0 # rest) t s = Inr (node, s1) \<and>
    r \<notin> animated_list children \<and>
    draw tm clk (add node children) projection view model s2 = Inr (s3, calls) \<longrightarrow>
      transform s3 r = transform s2 r) \<and>
   (truthy k0 \<and> SkinningControlNode_init tm r (k0 # rest) t s = Inr (node, s1) \<longrightarrow>
      (\<exists>k. TransformKeyFrames_star tm (k0 # rest) = Inr k \<and>
           node = SkinningControlNode r (Some k) []))"
proof (intro conjI impI)
  show "SkinningControlNode_init tm r (k0 # rest) t s =
        Inr (SkinningControlNode r None [],
             s\<lparr>transform := (transform s)(r := t),
               world_transform := (world_transform s)(r \<mapsto> identity)\<rparr>)"
    if "\<not> truthy k0"
    using that by (rule SkinningControlNode_init_falsy)
  show "transform s3 r = transform s2 r"
    if h: "\<not> truthy k0 \<and> SkinningControlNode_init tm r (k0 # rest) t s = Inr (node, s1) \<and>
      r \<notin> animated_list children \<and>
      draw tm clk (add node children) projection view model s2 = Inr (s3, calls)"
  proof -
    from h SkinningControlNode_init_falsy [of k0 tm r rest t s]
    have "node = SkinningControlNode r None []" by simp
    with h have "draw tm clk (SkinningControlNode r None children) projection view model s2
                 = Inr (s3, calls)" by simp
    with h show ?thesis by (simp add: unanimated_draw)
  qed
  show "\<exists>k. TransformKeyFrames_star tm (k0 # rest) = Inr k \<and>
           node = SkinningControlNode r (Some k) []"
    if "truthy k0 \<and> SkinningControlNode_init tm r (k0 # rest) t s = Inr (node, s1)"
    using that by (auto simp: SkinningControlNode_init_def py_get_def split: sum.splits)
qed

theorem first_key_decides_animation_witness:
  "\<not> truthy (Some []) \<and>
   SkinningControlNode_init example_module 0
     [Some [], Some [(0, [1, 0, 0, 0])], Some [(0, [1, 1, 1])]] (example_translate [1, 2, 3])
     \<lparr>transform = (\<lambda>r. identity), world_transform = (\<lambda>r. None), time_reads = 0\<rparr>
   = Inr (SkinningControlNode 0 None [],
          \<lparr>transform = (\<lambda>r. identity)(0 := example_translate [1, 2, 3]),
           world_transform = (\<lambda>r. None)(0 \<mapsto> identity), time_reads = 0\<rparr>) \<and>
   0 \<notin> animated_list [Mesh 7] \<and>
   draw example_module (\<lambda>k. 5) (add (SkinningControlNode 0 None []) [Mesh 7]) identity identity
     identity
     \<lparr>transform = (\<lambda>r. identity)(0 := example_translate [1, 2, 3]),
      world_transform = (\<lambda>r. None)(0 \<mapsto> identity), time_reads = 0\<rparr>
   = Inr (\<lparr>transform = (\<lambda>r. identity)(0 := example_translate [1, 2, 3]),
           world_transform = (\<lambda>r. None)(0 \<mapsto> matmul identity (example_translate [1, 2, 3])),
           time_reads = 0\<rparr>,
          Mesh_draw 7 identity identity (matmul identity (example_translate [1, 2, 3]))) \<and>
   transform \<lparr>transform = (\<lambda>r. identity)(0 := example_translate [1, 2, 3]),
           world_transform = (\<lambda>r. None)(0 \<mapsto> matmul identity (example_translate [1, 2, 3])),
           time_reads = 0\<rparr> 0 = example_translate [1, 2, 3] \<and>
   truthy (Some [(0, [0, 0, 0])]) \<and>
   SkinningControlNode_init example_module 0
     [Some [(0, [0, 0, 0])], Some [(0, [1, 0, 0, 0])], Some [(0, [1, 1, 1])]] identity
     \<lparr>transform = (\<lambda>r. identity), world_transform = (\<lambda>r. None), time_reads = 0\<rparr>
   = Inr (SkinningControlNode 0
            (Some \<lparr>translate_keys =
                     \<lparr>times_kf = [0], values_kf = [[0, 0, 0]], interpolate = spec_lerp\<rparr>,
                   rotate_keys =
                     \<lparr>times_kf = [0], values_kf = [[1, 0, 0, 0]], interpolate = spec_lerp\<rparr>,
                   scale_keys =
                     \<lparr>times_kf = [0], values_kf = [[1, 1, 1]], interpolate = spec_lerp\<rparr>\<rparr>) [],
          \<lparr>transform = (\<lambda>r. identity)(0 := identity),
           world_transform = (\<lambda>r. None)(0 \<mapsto> identity), time_reads = 0\<rparr>)"
proof -
  let ?s0 = "\<lparr>transform = (\<lambda>r. identity), world_transform = (\<lambda>r. None), time_reads = 0\<rparr>"
  let ?s1 = "\<lparr>transform = (\<lambda>r. identity)(0 := example_translate [1, 2, 3]),
           world_transform = (\<lambda>r. None)(0 \<mapsto> identity), time_reads = 0\<rparr>"
  let ?s2 = "\<lparr>transform = (\<lambda>r. identity)(0 := example_translate [1, 2, 3]),
           world_transform = (\<lambda>r. None)(0 \<mapsto> matmul identity (example_translate [1, 2, 3])),
           time_reads = 0\<rparr>"
  let ?rest = "[Some [(0, [1, 0, 0, 0])], Some [(0, [1, 1, 1 :: real])]]"
  let ?tkf = "\<lparr>translate_keys =
                     \<lparr>times_kf = [0], values_kf = [[0, 0, 0]], interpolate = spec_lerp\<rparr>,
                   rotate_keys =
                     \<lparr>times_kf = [0], values_kf = [[1, 0, 0, 0]], interpolate = spec_lerp\<rparr>,
                   scale_keys =
                     \<lparr>times_kf = [0], values_kf = [[1, 1, 1]], interpolate = spec_lerp\<rparr>\<rparr>"
  have f: "\<not> truthy (Some [])" and a: "0 \<notin> animated_list [Mesh 7]"
    and tr: "truthy (Some [(0, [0, 0, 0])])" by simp_all
  have d: "draw example_module (\<lambda>k. 5) (add (SkinningControlNode 0 None []) [Mesh 7])
             identity identity identity ?s1
           = Inr (?s2, Mesh_draw 7 identity identity
                    (matmul identity (example_translate [1, 2, 3])))"
    by simp
  have i: "SkinningControlNode_init example_module 0 (Some [(0, [0, 0, 0])] # ?rest) identity ?s0
           = Inr (SkinningControlNode 0 (Some ?tkf) [],
                  \<lparr>transform = (\<lambda>r. identity)(0 := identity),
                   world_transform = (\<lambda>r. None)(0 \<mapsto> identity), time_reads = 0\<rparr>)"
    by (simp add: SkinningControlNode_init_def py_get_def TransformKeyFrames_init_def
        KeyFrames_of_arg_def KeyFrames_init_def example_module_def)
  note t = first_key_decides_animation
    [of "Some []" example_module 0 ?rest "example_translate [1, 2, 3]" ?s0
        "SkinningControlNode 0 None []" ?s1 "[Mesh 7]" "\<lambda>k. 5" identity identity identity
        ?s1 ?s2 "Mesh_draw 7 identity identity (matmul identity (example_translate [1, 2, 3]))"]
  note u = first_key_decides_animation
    [of "Some [(0, [0, 0, 0])]" example_module 0 ?rest identity ?s0
        "SkinningControlNode 0 (Some ?tkf) []"
        "\<lparr>transform = (\<lambda>r. identity)(0 := identity),
          world_transform = (\<lambda>r. None)(0 \<mapsto> identity), time_reads = 0\<rparr>"]
  from t u f a tr d i show ?thesis by simp
qed

section \<open>Bone matrices\<close>

lemma bone_matrix_loop_enumerate:
  assumes "map (world_transform s) bone_nodes = map Some Ws"
    and "k + length bone_nodes \<le> length bone_offsets"
  shows "bone_matrix_loop s (enumerate k bone_nodes) bone_offsets =
    Inr (map (\<lambda>i. UniformBoneMatrix (k + i) (matmul (Ws ! i) (bone_offsets ! (k + i))))
           [0..<length bone_nodes])"
  using assms
proof (induction bone_nodes arbitrary: k Ws)
  case Nil
  then show ?case by simp
next
  case (Cons node rest)
  from Cons.prems(1) obtain W Ws' where Ws: "Ws = W # Ws'"
    and W: "world_transform s node = Some W"
    and rest: "map (world_transform s) rest = map Some Ws'"
    by (cases Ws) auto
  from Cons.prems(2) have k: "k < length bone_offsets" "Suc k + length rest \<le> length bone_offsets"
    by simp_all
  have "map (\<lambda>i. UniformBoneMatrix (k + i) (matmul (Ws ! i) (bone_offsets ! (k + i))))
          [0..<length (node # rest)] =
        UniformBoneMatrix k (matmul W (bone_offsets ! k)) #
        map (\<lambda>i. UniformBoneMatrix (Suc k + i) (matmul (Ws' ! i) (bone_offsets ! (Suc k + i))))
          [0..<length rest]"
    by (simp add: Ws upt_conv_Cons del: upt_Suc flip: map_Suc_upt)
  with Cons.IH [OF rest k(2)] W k(1) show ?case
    by (simp add: py_get_nat)
qed

lemma world_transforms_known:
  "map (world_transform s) bone_nodes = map Some Ws \<Longrightarrow> world_transforms s bone_nodes = Inr Ws"
proof (induction bone_nodes arbitrary: Ws)
  case Nil
  then show ?case by simp
next
  case (Cons node rest)
  then show ?case by (cases Ws) auto
qed

lemma matmul_stacks_equal_length:
  "length Ws = length Os \<Longrightarrow>
   matmul_stacks Ws Os = Inr (map (\<lambda>i. matmul (Ws ! i) (Os ! i)) [0..<length Ws])"
proof -
  assume len: "length Ws = length Os"
  have "map2 matmul Ws Os = map (\<lambda>i. matmul (Ws ! i) (Os ! i)) [0..<length Ws]"
    using len by (intro nth_equalityI) simp_all
  with len show ?thesis by (auto simp: matmul_stacks_def)
qed

text \<open>
  Claim C7. For a skinned drawable whose bone nodes are skinning nodes with current world
  transforms \<open>Ws\<close>, and which holds one offset matrix per bone node, the draw call
  computes for every bone index \<open>i\<close> the matrix \<open>Ws[i] @ bone_offsets[i]\<close>:
  \<open>TexturedPhongMeshSkinned.draw\<close> uploads it as \<open>bone_matrix[i]\<close>, one call per bone in
  index order, and \<open>SkinnedMesh.draw\<close> uploads the array of these products.
\<close>

theorem bone_matrix_is_world_times_offset:
  assumes "map (world_transform s) bone_nodes = map Some Ws"
    and "length bone_offsets = length bone_nodes"
  shows "bone_matrix_loop (s\<lparr>time_reads := Suc (time_reads s)\<rparr>) (enumerate 0 bone_nodes)
           bone_offsets =
           Inr (map (\<lambda>i. UniformBoneMatrix i (matmul (Ws ! i) (bone_offsets ! i)))
                  [0..<length bone_nodes]) \<and>
         (det4 view \<noteq> 0 \<longrightarrow>
            TexturedPhongMeshSkinned_draw g bone_nodes bone_offsets projection view model s =
              Inr (s\<lparr>time_reads := Suc (time_reads s)\<rparr>,
                   [UniformMatrix4fv ''view'' view, UniformMatrix4fv ''projection'' projection,
                    UniformMatrix4fv ''model'' model] @
                   map (\<lambda>i. UniformBoneMatrix i (matmul (Ws ! i) (bone_offsets ! i)))
                     [0..<length bone_nodes] @
                   [Execute g])) \<and>
         SkinnedMesh_draw g bone_nodes bone_offsets projection view model s =
           Inr (s, UniformBoneMatrices (length bone_nodes)
                     (map (\<lambda>i. matmul (Ws ! i) (bone_offsets ! i)) [0..<length bone_nodes])
                   # Mesh_draw g projection view model)"
proof -
  let ?s1 = "s\<lparr>time_reads := Suc (time_reads s)\<rparr>"
  from assms(1) have w1: "map (world_transform ?s1) bone_nodes = map Some Ws" by simp
  from assms(2) have le: "0 + length bone_nodes \<le> length bone_offsets" by simp
  from bone_matrix_loop_enumerate [OF w1 le]
  have loop: "bone_matrix_loop ?s1 (enumerate 0 bone_nodes) bone_offsets =
           Inr (map (\<lambda>i. UniformBoneMatrix i (matmul (Ws ! i) (bone_offsets ! i)))
                  [0..<length bone_nodes])" by simp
  from assms(1) have lw: "length Ws = length bone_nodes"
    by (metis length_map)
  with assms(2) have "length Ws = length bone_offsets" by simp
  from matmul_stacks_equal_length [OF this] world_transforms_known [OF assms(1)] lw
  have sk: "SkinnedMesh_draw g bone_nodes bone_offsets projection view model s =
           Inr (s, UniformBoneMatrices (length bone_nodes)
                     (map (\<lambda>i. matmul (Ws ! i) (bone_offsets ! i)) [0..<length bone_nodes])
                   # Mesh_draw g projection view model)"
    by (simp add: SkinnedMesh_draw_def)
  from loop sk show ?thesis
    by (simp add: TexturedPhongMeshSkinned_draw_def Let_def)
qed

theorem bone_matrix_is_world_times_offset_witness:
  "map (world_transform
          \<lparr>transform = (\<lambda>r. identity),
           world_transform = (\<lambda>r. None)(3 \<mapsto> example_translate [1, 2, 3]),
           time_reads = 0\<rparr>) [3]
   = map Some [example_translate [1, 2, 3]] \<and>
   length [example_scale [2, 2, 2]] = length [3 :: nat] \<and>
   det4 identity \<noteq> 0 \<and>
   TexturedPhongMeshSkinned_draw 7 [3] [example_scale [2, 2, 2]] identity identity identity
     \<lparr>transform = (\<lambda>r. identity),
      world_transform = (\<lambda>r. None)(3 \<mapsto> example_translate [1, 2, 3]), time_reads = 0\<rparr>
   = Inr (\<lparr>transform = (\<lambda>r. identity),
           world_transform = (\<lambda>r. None)(3 \<mapsto> example_translate [1, 2, 3]), time_reads = 1\<rparr>,
          [UniformMatrix4fv ''view'' identity, UniformMatrix4fv ''projection'' identity,
           UniformMatrix4fv ''model'' identity,
           UniformBoneMatrix 0 (Mat4 (Row4 2 0 0 1) (Row4 0 2 0 2) (Row4 0 0 2 3) (Row4 0 0 0 1)),
           Execute 7]) \<and>
   SkinnedMesh_draw 7 [3] [example_scale [2, 2, 2]] identity identity identity
     \<lparr>transform = (\<lambda>r. identity),
      world_transform = (\<lambda>r. None)(3 \<mapsto> example_translate [1, 2, 3]), time_reads = 0\<rparr>
   = Inr (\<lparr>transform = (\<lambda>r. identity),
           world_transform = (\<lambda>r. None)(3 \<mapsto> example_translate [1, 2, 3]), time_reads = 0\<rparr>,
          UniformBoneMatrices 1 [Mat4 (Row4 2 0 0 1) (Row4 0 2 0 2) (Row4 0 0 2 3) (Row4 0 0 0 1)]
          # Mesh_draw 7 identity identity identity)"
proof -
  let ?s = "\<lparr>transform = (\<lambda>r. identity),
             world_transform = (\<lambda>r. None)(3 \<mapsto> example_translate [1, 2, 3]),
             time_reads = 0\<rparr>"
  have w: "map (world_transform ?s) [3] = map Some [example_translate [1, 2, 3]]" by simp
  have l: "length [example_scale [2, 2, 2]] = length [3 :: nat]" by simp
  have d: "det4 identity \<noteq> 0" by (simp add: identity_def)
  from bone_matrix_is_world_times_offset [OF w l, of identity 7 identity identity] w l d
  show ?thesis by (simp add: example_translate_def example_scale_def)
qed

section \<open>Per-vertex skin weights\<close>

lemma store_weights_row:
  assumes "store_weights b es vb = Inr vb'" "v < length vb"
  shows "length vb' = length vb \<and>
         vb' ! v = (case filter (\<lambda>e. mVertexId e = v) es of
                      [] \<Rightarrow> vb ! v
                    | e # es' \<Rightarrow> (vb ! v)[b := (mWeight (last (e # es')), b)])"
  using assms
proof (induction es arbitrary: vb)
  case Nil
  then show ?case by simp
next
  case (Cons entry rest)
  let ?u = "mVertexId entry"
  let ?vb1 = "vb[?u := (vb ! ?u)[b := (mWeight entry, b)]]"
  from Cons.prems(1) have u: "?u < length vb" and r: "store_weights b rest ?vb1 = Inr vb'"
    by (auto split: if_splits)
  from Cons.prems(2) have v1: "v < length ?vb1" by simp
  note IH = Cons.IH [OF r v1]
  show ?case
  proof (cases "?u = v")
    case True
    with Cons.prems(2) have "?vb1 ! v = (vb ! v)[b := (mWeight entry, b)]" by simp
    with IH True show ?thesis by (auto split: list.splits)
  next
    case False
    then have "?vb1 ! v = vb ! v" by simp
    with IH False show ?thesis by (auto split: list.splits)
  qed
qed

text \<open>The entry one bone leaves in its column of the row of vertex \<open>v\<close>.\<close>

lemma store_weights_entry:
  assumes "store_weights b es vb = Inr vb'" "v < length vb" "c < length (vb ! v)"
  shows "length (vb' ! v) = length (vb ! v) \<and>
         vb' ! v ! c =
           (if c = b \<and> filter (\<lambda>e. mVertexId e = v) es \<noteq> []
            then (mWeight (last (filter (\<lambda>e. mVertexId e = v) es)), b)
            else vb ! v ! c)"
  using store_weights_row [OF assms(1,2)] assms(3)
  by (cases "filter (\<lambda>e. mVertexId e = v) es") (auto simp: nth_list_update)

lemma store_bones_entry:
  assumes "store_bones (enumerate k bones) vb = Inr vb'" "v < length vb" "c < length (vb ! v)"
  shows "length vb' = length vb \<and> length (vb' ! v) = length (vb ! v) \<and>
         vb' ! v ! c =
           (if k \<le> c \<and> c < k + length bones \<and>
               filter (\<lambda>e. mVertexId e = v) (mWeights (bones ! (c - k))) \<noteq> []
            then (mWeight (last (filter (\<lambda>e. mVertexId e = v) (mWeights (bones ! (c - k))))), c)
            else vb ! v ! c)"
  using assms
proof (induction bones arbitrary: k vb)
  case Nil
  then show ?case by auto
next
  case (Cons bone rest)
  from Cons.prems(1) obtain vb1 where
    w: "store_weights k (mWeights bone) vb = Inr vb1"
    and r: "store_bones (enumerate (Suc k) rest) vb1 = Inr vb'"
    by (auto split: sum.splits)
  note row = store_weights_row [OF w Cons.prems(2)]
  note e1 = store_weights_entry [OF w Cons.prems(2,3)]
  from row Cons.prems(2) have v1: "v < length vb1" by simp
  from e1 Cons.prems(3) have c1: "c < length (vb1 ! v)" by simp
  note IH = Cons.IH [OF r v1 c1]
  show ?case
  proof (cases "c = k")
    case True
    with IH e1 row show ?thesis by simp
  next
    case False
    show ?thesis
    proof (cases "Suc k \<le> c")
      case True
      then have "(bone # rest) ! (c - k) = rest ! (c - Suc k)"
        by (simp add: nth_Cons') 
      with IH e1 row False True show ?thesis by auto
    next
      case False
      with \<open>c \<noteq> k\<close> IH e1 row show ?thesis by auto
    qed
  qed
qed

lemma store_weights_total:
  "\<forall>e\<in>set es. mVertexId e < length vb \<Longrightarrow> \<exists>vb'. store_weights b es vb = Inr vb'"
  by (induction es arbitrary: vb) simp_all

lemma store_weights_length: "store_weights b es vb = Inr vb' \<Longrightarrow> length vb' = length vb"
  by (induction es arbitrary: vb) (auto split: if_splits)

lemma store_bones_total:
  "\<forall>bone\<in>set bones. \<forall>e\<in>set (mWeights bone). mVertexId e < length vb \<Longrightarrow>
   \<exists>vb'. store_bones (enumerate k bones) vb = Inr vb'"
proof (induction bones arbitrary: k vb)
  case Nil
  show ?case by simp
next
  case (Cons bone rest)
  from Cons.prems have "\<forall>e\<in>set (mWeights bone). mVertexId e < length vb" by simp
  from store_weights_total [OF this, of k] obtain vb1
    where w: "store_weights k (mWeights bone) vb = Inr vb1" by blast
  from store_weights_length [OF w] Cons.prems
  have "\<forall>bone\<in>set rest. \<forall>e\<in>set (mWeights bone). mVertexId e < length vb1" by simp
  from Cons.IH [OF this, of "Suc k"] w show ?case by simp
qed

lemma store_bones_filled_row:
  assumes "store_bones (enumerate 0 (take MAX_BONES bones))
             (replicate n (replicate MAX_BONES (0, 0))) = Inr vb" "v < n"
  shows "length vb = n \<and> vb ! v = filled_row bones v"
proof -
  let ?init = "replicate n (replicate MAX_BONES (0 :: real, 0 :: nat))"
  from assms(2) have v: "v < length ?init" by simp
  have len: "length vb = n \<and> length (vb ! v) = MAX_BONES"
    using store_bones_entry [OF assms(1) v, of 0] assms(2)
    by (simp add: MAX_BONES_def)
  have "vb ! v ! c = filled_row bones v ! c" if c: "c < MAX_BONES" for c
  proof -
    from c assms(2) have "c < length (?init ! v)" by simp
    from store_bones_entry [OF assms(1) v this] c assms(2)
    show ?thesis
      by (cases "filter (\<lambda>e. mVertexId e = v) (mWeights (bones ! c))")
        (auto simp: filled_row_def column_entry_def)
  qed
  with len show ?thesis
    by (intro conjI nth_equalityI) (simp_all add: filled_row_def)
qed

lemma per_vertex_weights_row:
  assumes "per_vertex_weights n bones = Inr vb" "v < n"
  shows "length vb = n \<and>
         vb ! v = drop (MAX_BONES - MAX_VERTEX_BONES) (sort (filled_row bones v))"
proof -
  from assms(1) obtain filled where
    f: "store_bones (enumerate 0 (take MAX_BONES bones))
          (replicate n (replicate MAX_BONES (0, 0))) = Inr filled"
    and vb: "vb = map (\<lambda>row. drop (length row - MAX_VERTEX_BONES) row) (map sort filled)"
    by (auto simp: per_vertex_weights_def split: sum.splits if_splits)
  from store_bones_filled_row [OF f assms(2)] assms(2) vb show ?thesis
    by (simp add: filled_row_def)
qed

lemma per_vertex_weights_total:
  assumes "\<forall>bone\<in>set (take MAX_BONES bones). \<forall>e\<in>set (mWeights bone). mVertexId e < n"
    and "0 < n"
  shows "\<exists>vb. per_vertex_weights n bones = Inr vb"
proof -
  from assms have "\<forall>bone\<in>set (take MAX_BONES bones). \<forall>e\<in>set (mWeights bone).
      mVertexId e < length (replicate n (replicate MAX_BONES (0 :: real, 0 :: nat)))"
    by simp
  from store_bones_total [OF this, of 0] assms(2) show ?thesis
    by (auto simp: per_vertex_weights_def)
qed

text \<open>What the last entries of a sorted list are.\<close>

lemma drop_sort_highest:
  fixes xs :: "'a::linorder list"
  shows "sorted (drop m (sort xs)) \<and>
         mset xs = mset (take m (sort xs)) + mset (drop m (sort xs)) \<and>
         (\<forall>x\<in>set (take m (sort xs)). \<forall>y\<in>set (drop m (sort xs)). x \<le> y)"
proof -
  have s: "sorted (take m (sort xs) @ drop m (sort xs))" by simp
  have "mset (take m (sort xs)) + mset (drop m (sort xs)) = mset (sort xs)"
    by (simp flip: mset_append)
  with s show ?thesis by (simp add: sorted_append del: append_take_drop_id)
qed

lemma sort_zero_padding:
  fixes xs :: "(real \<times> nat) list"
  assumes "\<forall>p\<in>set xs. 0 \<le> fst p"
  shows "sort xs =
    replicate (length xs - length (filter (\<lambda>p. p \<noteq> (0, 0)) xs)) (0, 0) @
    sort (filter (\<lambda>p. p \<noteq> (0, 0)) xs)"
proof (rule properties_for_sort)
  let ?z = "(0 :: real, 0 :: nat)"
  let ?infl = "filter (\<lambda>p. p \<noteq> ?z) xs"
  have "length xs = length (filter (\<lambda>p. ?z = p) xs) + length ?infl"
    using sum_length_filter_compl [of "\<lambda>p. ?z = p" xs] by (simp add: eq_commute)
  then have "replicate (length xs - length ?infl) ?z = filter (\<lambda>p. ?z = p) xs"
    by (simp add: replicate_length_filter)
  moreover have "mset (filter (\<lambda>p. ?z = p) xs) + mset ?infl = mset xs"
    using multiset_partition [of "mset xs" "\<lambda>p. ?z = p"] by (simp add: eq_commute)
  ultimately show "mset (replicate (length xs - length ?infl) ?z @ sort ?infl) = mset xs"
    by simp
  from assms have "\<forall>p\<in>set ?infl. ?z \<le> p"
    by (auto simp: less_eq_prod_def)
  then show "sorted (replicate (length xs - length ?infl) ?z @ sort ?infl)"
    by (auto simp: sorted_append)
qed

lemma filled_row_bone_index: "p \<in> set (filled_row bones v) \<Longrightarrow> snd p < MAX_BONES"
  by (auto simp: filled_row_def column_entry_def MAX_BONES_def split: list.splits)

lemma filled_row_take: "filled_row (take MAX_BONES bones) v = filled_row bones v"
  by (simp add: filled_row_def column_entry_def)

lemma per_vertex_weights_take:
  "per_vertex_weights n (take MAX_BONES bones) = per_vertex_weights n bones"
  by (simp add: per_vertex_weights_def)

text \<open>
  Claim C1, as the code has it. For a mesh whose weight entries name existing vertices,
  the construction succeeds and reads the first \<open>MAX_BONES\<close> = 128 bones only: the
  bones of index 128 or more are ignored, whatever they weigh. The row of a vertex has
  one (weight, bone index) entry for each of the 128 bone columns, the filler (0, 0)
  where the bone does not weigh on the vertex. The row stored for the vertex is the last
  \<open>MAX_VERTEX_BONES\<close> = 4 entries of that row sorted in ascending order: four entries
  of bone index below 128, ascending by weight (the highest last, not first), the other
  entries dropped, none of them heavier than a kept one. When no weight is negative and
  fewer than 4 entries differ from the filler, the stored row is the zero padding
  followed by those entries in ascending order.
\<close>

theorem stored_weights_are_highest_four:
  assumes "\<forall>bone\<in>set (take MAX_BONES bones). \<forall>e\<in>set (mWeights bone). mVertexId e < n"
    and "v < n"
  shows "\<exists>vb. per_vertex_weights n bones = Inr vb \<and> length vb = n \<and>
           per_vertex_weights n (take MAX_BONES bones) = Inr vb \<and>
           filled_row (take MAX_BONES bones) v = filled_row bones v \<and>
           vb ! v = drop (MAX_BONES - MAX_VERTEX_BONES) (sort (filled_row bones v)) \<and>
           length (vb ! v) = MAX_VERTEX_BONES \<and> sorted (map fst (vb ! v)) \<and>
           (\<forall>p\<in>set (vb ! v). snd p < MAX_BONES) \<and>
           (\<exists>dropped. mset (filled_row bones v) = mset dropped + mset (vb ! v) \<and>
                      (\<forall>x\<in>set dropped. \<forall>y\<in>set (vb ! v). fst x \<le> fst y)) \<and>
           ((\<forall>p\<in>set (filled_row bones v). 0 \<le> fst p) \<and>
            length (filter (\<lambda>p. p \<noteq> (0, 0)) (filled_row bones v)) < MAX_VERTEX_BONES \<longrightarrow>
              vb ! v =
                replicate
                  (MAX_VERTEX_BONES - length (filter (\<lambda>p. p \<noteq> (0, 0)) (filled_row bones v)))
                  (0, 0) @
                sort (filter (\<lambda>p. p \<noteq> (0, 0)) (filled_row bones v)))"
proof -
  let ?cs = "filled_row bones v"
  let ?m = "MAX_BONES - MAX_VERTEX_BONES"
  let ?infl = "filter (\<lambda>p. p \<noteq> (0, 0)) ?cs"
  from assms(2) have "0 < n" by simp
  from per_vertex_weights_total [OF assms(1) this] obtain vb
    where vb: "per_vertex_weights n bones = Inr vb" by blast
  then have tk: "per_vertex_weights n (take MAX_BONES bones) = Inr vb"
    by (simp add: per_vertex_weights_take)
  from per_vertex_weights_row [OF vb assms(2)]
  have n: "length vb = n" and row: "vb ! v = drop ?m (sort ?cs)" by simp_all
  have lc: "length ?cs = MAX_BONES" by (simp add: filled_row_def)
  then have len: "length (vb ! v) = MAX_VERTEX_BONES"
    by (simp add: row MAX_BONES_def MAX_VERTEX_BONES_def)
  note h = drop_sort_highest [of ?m ?cs]
  from h have so: "sorted (map fst (vb ! v))" by (simp add: row sorted_map_fst)
  have ix: "\<forall>p\<in>set (vb ! v). snd p < MAX_BONES"
  proof
    fix p assume "p \<in> set (vb ! v)"
    then have "p \<in> set (sort ?cs)" unfolding row by (rule in_set_dropD)
    then show "snd p < MAX_BONES" by (simp add: filled_row_bone_index)
  qed
  have "\<forall>x\<in>set (take ?m (sort ?cs)). \<forall>y\<in>set (vb ! v). fst x \<le> fst y"
  proof (intro ballI)
    fix x y assume "x \<in> set (take ?m (sort ?cs))" "y \<in> set (vb ! v)"
    with h row have "x \<le> y" by simp
    then show "fst x \<le> fst y" by (auto simp: less_eq_prod_def)
  qed
  with h row have dr: "\<exists>dropped. mset ?cs = mset dropped + mset (vb ! v) \<and>
                      (\<forall>x\<in>set dropped. \<forall>y\<in>set (vb ! v). fst x \<le> fst y)"
    by (intro exI [of _ "take ?m (sort ?cs)"]) simp
  have pad: "vb ! v = replicate (MAX_VERTEX_BONES - length ?infl) (0, 0) @ sort ?infl"
    if p: "(\<forall>p\<in>set ?cs. 0 \<le> fst p) \<and> length ?infl < MAX_VERTEX_BONES"
  proof -
    from p have "sort ?cs = replicate (length ?cs - length ?infl) (0, 0) @ sort ?infl"
      by (intro sort_zero_padding) simp
    moreover from p have "length ?infl < MAX_VERTEX_BONES" by simp
    then have "?m \<le> MAX_BONES - length ?infl"
      "MAX_BONES - length ?infl - ?m = MAX_VERTEX_BONES - length ?infl"
      unfolding MAX_BONES_def MAX_VERTEX_BONES_def by arith+
    ultimately show ?thesis by (simp add: row lc)
  qed
  from vb tk filled_row_take [of bones v] n row len so ix dr pad show ?thesis by blast
qed

theorem stored_weights_are_highest_four_witness:
  "length (filter (\<lambda>p. p \<noteq> (0, 0)) (filled_row (single_weight_bones [7 / 10, 3 / 10]) 0))
     < MAX_VERTEX_BONES \<and>
   per_vertex_weights 1 (single_weight_bones [7 / 10, 3 / 10])
     = Inr [[(0, 0), (0, 0), (3 / 10, 1), (7 / 10, 0)]]"
proof -
  let ?bones = "single_weight_bones [7 / 10, 3 / 10]"
  have h1: "\<forall>bone\<in>set (take MAX_BONES ?bones). \<forall>e\<in>set (mWeights bone). mVertexId e < 1"
    by (simp add: single_weight_bones_def MAX_BONES_def)
  have h2: "(0 :: nat) < 1" by simp
  have h3: "\<forall>p\<in>set (filled_row ?bones 0). 0 \<le> fst p" by code_simp
  have h4: "length (filter (\<lambda>p. p \<noteq> (0, 0)) (filled_row ?bones 0)) < MAX_VERTEX_BONES"
    by code_simp
  have e: "per_vertex_weights 1 ?bones = Inr [[(0, 0), (0, 0), (3 / 10, 1), (7 / 10, 0)]]"
    by code_simp
  from stored_weights_are_highest_four [OF h1 h2] h3 h4 e show ?thesis by blast
qed

text \<open>
  The claim as stated fails on the example of the specification: of six bones with
  weights 0.5, 0.3, 0.1, 0.05, 0.03, 0.02 on a vertex, the four highest are stored with
  the lowest of them first, not in descending order. It fails again on a mesh of 129
  bones: the last bone weighs 1 on the vertex and the others 0.1, and the pair of the
  last bone is not stored.
\<close>

theorem stored_weights_descending_counterexample:
  "per_vertex_weights 1 (single_weight_bones [1 / 2, 3 / 10, 1 / 10, 1 / 20, 3 / 100, 1 / 50])
     = Inr [[(1 / 20, 3), (1 / 10, 2), (3 / 10, 1), (1 / 2, 0)]] \<and>
   \<not> sorted_wrt (\<ge>) (map fst [(1 / 20 :: real, 3 :: nat), (1 / 10, 2), (3 / 10, 1), (1 / 2, 0)]) \<and>
   per_vertex_weights 1 (single_weight_bones [1 / 2, 3 / 10, 1 / 10, 1 / 20, 3 / 100, 1 / 50])
     \<noteq> Inr [[(1 / 2, 0), (3 / 10, 1), (1 / 10, 2), (1 / 20, 3)]] \<and>
   per_vertex_weights 1 (single_weight_bones (replicate 128 (1 / 10) @ [1]))
     = Inr [[(1 / 10, 124), (1 / 10, 125), (1 / 10, 126), (1 / 10, 127)]] \<and>
   (1, 128) \<notin> set [(1 / 10 :: real, 124 :: nat), (1 / 10, 125), (1 / 10, 126), (1 / 10, 127)]"
  by code_simp

end
